theory Spec2Isabelle
  imports Main "HOL-Library.Word" "HOL-Library.Sublist"
begin

unbundle bit_operations_syntax

section \<open>Data model\<close>

text \<open>
  A JavaScript string is a sequence of UTF-16 code units. String literals of the
  source are ASCII and are written with \<open>js\<close>.
\<close>

type_synonym jsstring = "16 word list"
type_synonym byte = "8 word"
type_synonym scalar = "32 word"

definition js :: "string \<Rightarrow> jsstring" where
  "js s = map (\<lambda>c. of_nat (of_char c)) s"

text \<open>The bytes of an ASCII text, as a chunk of a response body.\<close>

definition bytes :: "string \<Rightarrow> byte list" where
  "bytes s = map (\<lambda>c. of_nat (of_char c)) s"

text \<open>
  One entry of \<open>chatHistory\<close>: \<open>{ type: "user", text }\<close> or
  \<open>{ type: "bot", text, loading }\<close>. A user entry is created without a
  \<open>loading\<close> property, hence the option.
\<close>

datatype role = User | Bot

record chat =
  "type" :: role
  "text" :: jsstring
  loading :: "bool option"

text \<open>Values that the handlers can see thrown.\<close>

datatype error = Error string | TypeError string | ReferenceError string

text \<open>The JSON body of \<open>POST http://localhost:8000/chat\<close>.\<close>

record chat_request =
  question :: jsstring
  provider :: jsstring
  model :: jsstring

text \<open>
  The React state the two handlers touch: \<open>chatHistory\<close> (\<open>useState\<close> of
  \<open>Main\<close>, handed to \<open>BottomSection\<close> as a prop) and the fields of
  \<open>Context.jsx\<close>. \<open>uncaught\<close> records an error thrown by a state updater
  function while React applies it: the update is then lost, and so is every later one.
\<close>

record app_state =
  chatHistory :: "chat list"
  input :: jsstring
  recentPrompt :: jsstring
  previousPrompt :: "jsstring list"
  showResult :: bool
  loadings :: bool
  response :: jsstring
  uncaught :: "error option"

section \<open>The platform's streaming UTF-8 decoder\<close>

text \<open>
  Both handlers create \<open>new TextDecoder()\<close> and call
  \<open>decoder.decode(value, { stream: true })\<close> on every chunk. \<open>TextDecoder\<close>
  is not code of the repository; it is the browser's decoder, modelled here after
  the UTF-8 decoder of the WHATWG Encoding Standard with the default options
  (\<open>fatal = false\<close>: a malformed sequence yields U+FFFD; \<open>ignoreBOM = false\<close>:
  a leading U+FEFF is removed).
\<close>

record utf8_decoder =
  code_point :: scalar
  bytes_seen :: nat
  bytes_needed :: nat
  lower_boundary :: byte
  upper_boundary :: byte

record text_decoder =
  utf8 :: utf8_decoder
  BOM_seen :: bool

definition new_TextDecoder :: text_decoder where
  "new_TextDecoder =
     \<lparr>utf8 = \<lparr>code_point = 0, bytes_seen = 0, bytes_needed = 0,
              lower_boundary = 0x80, upper_boundary = 0xBF\<rparr>,
      BOM_seen = False\<rparr>"

text \<open>The handler's step for a byte read while no sequence is open (bytes needed is 0).\<close>

definition utf8_lead :: "utf8_decoder \<Rightarrow> byte \<Rightarrow> utf8_decoder \<times> scalar list" where
  "utf8_lead d b =
     (if b \<le> 0x7F then (d, [ucast b])
      else if 0xC2 \<le> b \<and> b \<le> 0xDF then
        (d\<lparr>bytes_needed := 1, code_point := ucast (b AND 0x1F)\<rparr>, [])
      else if 0xE0 \<le> b \<and> b \<le> 0xEF then
        (d\<lparr>lower_boundary := (if b = 0xE0 then 0xA0 else lower_boundary d),
           upper_boundary := (if b = 0xED then 0x9F else upper_boundary d),
           bytes_needed := 2, code_point := ucast (b AND 0xF)\<rparr>, [])
      else if 0xF0 \<le> b \<and> b \<le> 0xF4 then
        (d\<lparr>lower_boundary := (if b = 0xF0 then 0x90 else lower_boundary d),
           upper_boundary := (if b = 0xF4 then 0x8F else upper_boundary d),
           bytes_needed := 3, code_point := ucast (b AND 0x7)\<rparr>, [])
      else (d, [0xFFFD]))"

text \<open>
  One byte through the decoder. A byte outside the expected range closes the open
  sequence with U+FFFD and is then processed again as the start of a new sequence.
\<close>

definition utf8_handler :: "utf8_decoder \<Rightarrow> byte \<Rightarrow> utf8_decoder \<times> scalar list" where
  "utf8_handler d b =
     (if bytes_needed d = 0 then utf8_lead d b
      else if b < lower_boundary d \<or> upper_boundary d < b then
        (let (d', out) =
           utf8_lead (d\<lparr>code_point := 0, bytes_needed := 0, bytes_seen := 0,
                        lower_boundary := 0x80, upper_boundary := 0xBF\<rparr>) b
         in (d', 0xFFFD # out))
      else
        (let d' = d\<lparr>lower_boundary := 0x80, upper_boundary := 0xBF,
                     code_point := push_bit 6 (code_point d) OR ucast (b AND 0x3F),
                     bytes_seen := bytes_seen d + 1\<rparr>
         in if bytes_seen d' \<noteq> bytes_needed d' then (d', [])
            else (d'\<lparr>code_point := 0, bytes_needed := 0, bytes_seen := 0\<rparr>,
                  [code_point d'])))"

fun utf8_run :: "utf8_decoder \<Rightarrow> byte list \<Rightarrow> utf8_decoder \<times> scalar list" where
  "utf8_run d [] = (d, [])"
| "utf8_run d (b # bs) =
     (let (d', out) = utf8_handler d b;
          (d'', outs) = utf8_run d' bs
      in (d'', out @ outs))"

text \<open>A scalar value as UTF-16 code units.\<close>

definition utf16 :: "scalar \<Rightarrow> jsstring" where
  "utf16 c =
     (if c < 0x10000 then [ucast c]
      else [0xD800 + ucast (drop_bit 10 (c - 0x10000)),
            0xDC00 + ucast ((c - 0x10000) AND 0x3FF)])"

text \<open>
  Serialising the decoded scalar values: the first one of the whole stream is
  dropped when it is the byte order mark.
\<close>

fun serialize :: "bool \<Rightarrow> scalar list \<Rightarrow> bool \<times> jsstring" where
  "serialize seen [] = (seen, [])"
| "serialize seen (c # cs) =
     (if \<not> seen \<and> c = 0xFEFF then serialize True cs
      else (let (seen', s) = serialize True cs in (seen', utf16 c @ s)))"

text \<open>
  \<open>decoder.decode(value, { stream: true })\<close>: the bytes are decoded, an
  unfinished sequence stays in the decoder. \<open>decode_flush\<close> is the call with no
  \<open>stream\<close> option, \<open>decoder.decode()\<close>, which ends the stream: an unfinished
  sequence becomes U+FFFD.
\<close>

definition decode :: "text_decoder \<Rightarrow> byte list \<Rightarrow> text_decoder \<times> jsstring" where
  "decode d v =
     (let (u, out) = utf8_run (utf8 d) v;
          (seen, s) = serialize (BOM_seen d) out
      in (\<lparr>utf8 = u, BOM_seen = seen\<rparr>, s))"

definition decode_flush :: "text_decoder \<Rightarrow> jsstring" where
  "decode_flush d =
     snd (serialize (BOM_seen d) (if bytes_needed (utf8 d) \<noteq> 0 then [0xFFFD] else []))"

section \<open>State updates\<close>

text \<open>
  \<open>Array.prototype.map\<close> with a callback that may throw: the callback runs on the
  elements in order with their indices, and the first exception ends the call. On an
  empty array the callback does not run.
\<close>

fun array_map :: "('a \<Rightarrow> nat \<Rightarrow> error + 'b) \<Rightarrow> nat \<Rightarrow> 'a list \<Rightarrow> error + 'b list" where
  "array_map f index [] = Inr []"
| "array_map f index (x # xs) =
     (case f x index of
        Inl e \<Rightarrow> Inl e
      | Inr y \<Rightarrow>
          (case array_map f (Suc index) xs of
             Inl e \<Rightarrow> Inl e
           | Inr ys \<Rightarrow> Inr (y # ys)))"

text \<open>
  The callback \<open>(chat, index) => index === loaderIndex + 1 ? { ...chat, text: t,
  loading: false } : chat\<close> of both handlers. Its first argument is what the
  identifier \<open>loaderIndex\<close> resolves to where the callback is written:
  \<open>const loaderIndex = chatHistory.length\<close> is declared inside the \<open>try\<close> block
  (Sidebar.jsx line 145, Main line 40), so the callback of the read loop, in the
  same block, sees its value, while the callback of the \<open>catch\<close> block (Sidebar.jsx
  lines 198-204, Main lines 89-95) is outside the scope of the declaration, no
  enclosing scope declares the name, and evaluating it throws a
  \<open>ReferenceError\<close>.
\<close>

definition replace_text :: "nat option \<Rightarrow> jsstring \<Rightarrow> chat \<Rightarrow> nat \<Rightarrow> error + chat" where
  "replace_text loaderIndex t chat index =
     (case loaderIndex of
        None \<Rightarrow> Inl (ReferenceError ''loaderIndex is not defined'')
      | Some l \<Rightarrow>
          Inr (if index = l + 1 then chat\<lparr>text := t, loading := Some False\<rparr> else chat))"

text \<open>The updater \<open>(prev) => prev.map(...)\<close> passed to \<open>setChatHistory\<close>.\<close>

definition updateTurnText :: "nat option \<Rightarrow> jsstring \<Rightarrow> chat list \<Rightarrow> error + chat list" where
  "updateTurnText loaderIndex t prev = array_map (replace_text loaderIndex t) 0 prev"

text \<open>
  The updater \<open>(prev) => [...prev, { type: "user", text: q }, { type: "bot",
  text: "", loading: true }]\<close>.
\<close>

definition appendTurnPair :: "jsstring \<Rightarrow> chat list \<Rightarrow> error + chat list" where
  "appendTurnPair q prev =
     Inr (prev @ [\<lparr>type = User, text = q, loading = None\<rparr>,
                  \<lparr>type = Bot, text = [], loading = Some True\<rparr>])"

definition errorMessage :: jsstring where
  "errorMessage = js ''An error occurred. Please try again.''"

section \<open>Effects of a handler\<close>

text \<open>
  What a handler does, in program order: the calls of the state setters, the request
  and the log line.
\<close>

datatype effect =
    PreventDefault
  | SetShowResult bool
  | SetLoadings bool
  | SetRecentPrompt jsstring
  | SetChatHistory "chat list \<Rightarrow> error + chat list"
  | SetInput jsstring
  | Fetch chat_request
  | SetResponse jsstring
  | SetPreviousPrompt "jsstring list \<Rightarrow> jsstring list"
  | ConsoleError error

fun apply_effect :: "effect \<Rightarrow> app_state \<Rightarrow> app_state" where
  "apply_effect PreventDefault s = s"
| "apply_effect (SetShowResult b) s = s\<lparr>showResult := b\<rparr>"
| "apply_effect (SetLoadings b) s = s\<lparr>loadings := b\<rparr>"
| "apply_effect (SetRecentPrompt q) s = s\<lparr>recentPrompt := q\<rparr>"
| "apply_effect (SetChatHistory f) s =
     (case f (chatHistory s) of
        Inl e \<Rightarrow> s\<lparr>uncaught := Some e\<rparr>
      | Inr h \<Rightarrow> s\<lparr>chatHistory := h\<rparr>)"
| "apply_effect (SetInput q) s = s\<lparr>input := q\<rparr>"
| "apply_effect (Fetch r) s = s"
| "apply_effect (SetResponse t) s = s\<lparr>response := t\<rparr>"
| "apply_effect (SetPreviousPrompt f) s = s\<lparr>previousPrompt := f (previousPrompt s)\<rparr>"
| "apply_effect (ConsoleError e) s = s"

text \<open>
  An updater that throws does so while React renders the component that owns the state:
  the error is uncaught (no error boundary is in the sources), React unmounts the tree,
  and the setter calls that follow change nothing any more.
\<close>

fun throws :: "effect \<Rightarrow> app_state \<Rightarrow> bool" where
  "throws (SetChatHistory f) s = (case f (chatHistory s) of Inl e \<Rightarrow> True | Inr h \<Rightarrow> False)"
| "throws e s = False"

text \<open>
  The state a list of effects leaves: the effects are applied in order, up to and
  including the first one that throws.
\<close>

fun run_effects :: "effect list \<Rightarrow> app_state \<Rightarrow> app_state" where
  "run_effects [] s = s"
| "run_effects (e # es) s =
     (if throws e s then apply_effect e s else run_effects es (apply_effect e s))"

text \<open>
  The states an observer can see: the one after each effect, in order, ending with the
  state of the first effect that throws.
\<close>

fun states :: "effect list \<Rightarrow> app_state \<Rightarrow> app_state list" where
  "states [] s = []"
| "states (e # es) s =
     apply_effect e s # (if throws e s then [] else states es (apply_effect e s))"

section \<open>The network\<close>

text \<open>
  What the handler meets at its \<open>await\<close>s. \<open>fetch\<close> rejects, never settles, or
  resolves with a response whose \<open>ok\<close> is given and whose \<open>body\<close> is \<open>null\<close>
  or a stream. The stream delivers chunks and then ends, fails
  (\<open>reader.read()\<close> rejects) or stalls (\<open>reader.read()\<close> never settles).
\<close>

datatype stream_end = EndOfStream | ReadRejects | ReadStalls

datatype fetch_outcome =
    FetchRejects
  | FetchStalls
  | Response bool "(byte list list \<times> stream_end) option"

text \<open>
  Whether the \<open>async\<close> handler ran to its end (through \<open>finally\<close>) or stays
  suspended at an \<open>await\<close> for ever.
\<close>

datatype completion = Returned | Suspended

section \<open>\<open>BottomSection.handleSend\<close>\<close>

text \<open>
  The \<open>while (true)\<close> loop of \<open>handleSend\<close> (Sidebar.jsx lines 172-187) over the
  chunks the reader delivers: each chunk is decoded in streaming mode, appended to
  \<open>accumulatedResponse\<close>, and the history is updated with the accumulated text.
  The result is the updates made and the final \<open>accumulatedResponse\<close>.
\<close>

fun handleSend_loop ::
  "nat \<Rightarrow> text_decoder \<Rightarrow> jsstring \<Rightarrow> byte list list \<Rightarrow> effect list \<times> jsstring" where
  "handleSend_loop loaderIndex decoder accumulatedResponse [] = ([], accumulatedResponse)"
| "handleSend_loop loaderIndex decoder accumulatedResponse (v # rest) =
     (let (decoder', chunk) = decode decoder v;
          accumulatedResponse' = accumulatedResponse @ chunk;
          (effects, final) = handleSend_loop loaderIndex decoder' accumulatedResponse' rest
      in (SetChatHistory (updateTurnText (Some loaderIndex) accumulatedResponse') # effects,
          final))"

text \<open>The \<open>catch\<close> block of \<open>handleSend\<close> (Sidebar.jsx lines 191-205).\<close>

definition handleSend_catch :: "error \<Rightarrow> effect list" where
  "handleSend_catch e =
     [ConsoleError e, SetResponse errorMessage,
      SetChatHistory (updateTurnText None errorMessage)]"

text \<open>
  \<open>handleSend\<close> (Sidebar.jsx lines 135-209) run from state \<open>s\<close> against the network
  behaviour \<open>net\<close>. \<open>input\<close> and \<open>chatHistory\<close> are the values of the render
  the handler closes over; \<open>setInput("")\<close> does not change what \<open>input\<close> means
  inside the running handler.
\<close>

definition handleSend :: "fetch_outcome \<Rightarrow> app_state \<Rightarrow> effect list \<times> completion" where
  "handleSend net s =
     (if input s = [] then ([PreventDefault], Returned)
      else
        (let loaderIndex = length (chatHistory s);
             submitted =
               [PreventDefault, SetShowResult True, SetLoadings True,
                SetRecentPrompt (input s),
                SetChatHistory (appendTurnPair (input s)),
                SetInput [],
                Fetch \<lparr>question = input s, provider = js ''openai'',
                       model = js ''gpt-4o-mini''\<rparr>];
             finally_block = [SetLoadings False]
         in case net of
              FetchStalls \<Rightarrow> (submitted, Suspended)
            | FetchRejects \<Rightarrow>
                (submitted @ handleSend_catch (TypeError ''Failed to fetch'') @ finally_block,
                 Returned)
            | Response ok body \<Rightarrow>
                if \<not> ok then
                  (submitted
                     @ handleSend_catch (Error ''Failed to fetch response from the server.'')
                     @ finally_block,
                   Returned)
                else
                  (case body of
                     None \<Rightarrow>
                       (submitted @ handleSend_catch (TypeError ''res.body is null'')
                          @ finally_block,
                        Returned)
                   | Some (chunks, ending) \<Rightarrow>
                       (let (partials, accumulatedResponse) =
                              handleSend_loop loaderIndex new_TextDecoder [] chunks
                        in case ending of
                             EndOfStream \<Rightarrow>
                               (submitted @ partials
                                  @ [SetResponse accumulatedResponse,
                                     SetPreviousPrompt (\<lambda>prev. prev @ [input s])]
                                  @ finally_block,
                                Returned)
                           | ReadRejects \<Rightarrow>
                               (submitted @ partials
                                  @ handleSend_catch (TypeError ''network error'')
                                  @ finally_block,
                                Returned)
                           | ReadStalls \<Rightarrow> (submitted @ partials, Suspended)))))"

section \<open>\<open>Main.handleQueryClick\<close>\<close>

text \<open>The read loop of \<open>handleQueryClick\<close> (Main lines 65-80).\<close>

fun handleQueryClick_loop ::
  "nat \<Rightarrow> text_decoder \<Rightarrow> jsstring \<Rightarrow> byte list list \<Rightarrow> effect list \<times> jsstring" where
  "handleQueryClick_loop loaderIndex decoder accumulatedResponse [] =
     ([], accumulatedResponse)"
| "handleQueryClick_loop loaderIndex decoder accumulatedResponse (v # rest) =
     (let (decoder', chunk) = decode decoder v;
          accumulatedResponse' = accumulatedResponse @ chunk;
          (effects, final) =
            handleQueryClick_loop loaderIndex decoder' accumulatedResponse' rest
      in (SetChatHistory (updateTurnText (Some loaderIndex) accumulatedResponse') # effects,
          final))"

text \<open>The \<open>catch\<close> block of \<open>handleQueryClick\<close> (Main lines 83-96).\<close>

definition handleQueryClick_catch :: "error \<Rightarrow> effect list" where
  "handleQueryClick_catch e =
     [ConsoleError e, SetChatHistory (updateTurnText None errorMessage)]"

text \<open>\<open>handleQueryClick(query)\<close> (Main lines 33-99); it has no check of its argument.\<close>

definition handleQueryClick ::
  "jsstring \<Rightarrow> fetch_outcome \<Rightarrow> app_state \<Rightarrow> effect list \<times> completion" where
  "handleQueryClick query net s =
     (let loaderIndex = length (chatHistory s);
          submitted =
            [SetShowResult True, SetLoadings True, SetRecentPrompt query,
             SetChatHistory (appendTurnPair query),
             Fetch \<lparr>question = query, provider = js ''openai'',
                    model = js ''gpt-4o-mini''\<rparr>];
          finally_block = [SetLoadings False]
      in case net of
           FetchStalls \<Rightarrow> (submitted, Suspended)
         | FetchRejects \<Rightarrow>
             (submitted @ handleQueryClick_catch (TypeError ''Failed to fetch'')
                @ finally_block,
              Returned)
         | Response ok body \<Rightarrow>
             if \<not> ok then
               (submitted
                  @ handleQueryClick_catch
                      (Error ''Failed to fetch response from the server.'')
                  @ finally_block,
                Returned)
             else
               (case body of
                  None \<Rightarrow>
                    (submitted @ handleQueryClick_catch (TypeError ''res.body is null'')
                       @ finally_block,
                     Returned)
                | Some (chunks, ending) \<Rightarrow>
                    (let (partials, accumulatedResponse) =
                           handleQueryClick_loop loaderIndex new_TextDecoder [] chunks
                     in case ending of
                          EndOfStream \<Rightarrow>
                            (submitted @ partials
                               @ [SetPreviousPrompt (\<lambda>prev. prev @ [query])]
                               @ finally_block,
                             Returned)
                        | ReadRejects \<Rightarrow>
                            (submitted @ partials
                               @ handleQueryClick_catch (TypeError ''network error'')
                               @ finally_block,
                             Returned)
                        | ReadStalls \<Rightarrow> (submitted @ partials, Suspended))))"

text \<open>The state a handler leaves behind.\<close>

definition after_handleSend :: "fetch_outcome \<Rightarrow> app_state \<Rightarrow> app_state" where
  "after_handleSend net s = run_effects (fst (handleSend net s)) s"

definition after_handleQueryClick :: "jsstring \<Rightarrow> fetch_outcome \<Rightarrow> app_state \<Rightarrow> app_state" where
  "after_handleQueryClick query net s = run_effects (fst (handleQueryClick query net s)) s"

section \<open>Notions used in the statements\<close>

text \<open>
  The state of a fresh session: the \<open>useState\<close> defaults of \<open>Context.jsx\<close> and
  of \<open>Main\<close>.
\<close>

definition fresh_session :: app_state where
  "fresh_session =
     \<lparr>chatHistory = [], input = [], recentPrompt = [], previousPrompt = [],
      showResult = False, loadings = False, response = [], uncaught = None\<rparr>"

text \<open>
  The fragments \<open>decode(c1), ..., decode(cn)\<close> one decoder returns for the chunks of
  a stream, in arrival order.
\<close>

fun decoded_chunks :: "text_decoder \<Rightarrow> byte list list \<Rightarrow> jsstring list" where
  "decoded_chunks d [] = []"
| "decoded_chunks d (v # rest) =
     (let (d', chunk) = decode d v in chunk # decoded_chunks d' rest)"

text \<open>The values \<open>accumulatedResponse\<close> takes, one per chunk.\<close>

fun accumulated :: "text_decoder \<Rightarrow> jsstring \<Rightarrow> byte list list \<Rightarrow> jsstring list" where
  "accumulated d acc [] = []"
| "accumulated d acc (v # rest) =
     (let (d', chunk) = decode d v in (acc @ chunk) # accumulated d' (acc @ chunk) rest)"

text \<open>The values written to \<open>loadings\<close>, in order.\<close>

fun loadings_writes :: "effect list \<Rightarrow> bool list" where
  "loadings_writes [] = []"
| "loadings_writes (SetLoadings b # es) = b # loadings_writes es"
| "loadings_writes (e # es) = loadings_writes es"

text \<open>The requests sent, in order.\<close>

fun requests :: "effect list \<Rightarrow> chat_request list" where
  "requests [] = []"
| "requests (Fetch r # es) = r # requests es"
| "requests (e # es) = requests es"

text \<open>Every \<open>await\<close> of the handler settles: no promise stays pending for ever.\<close>

fun settles :: "fetch_outcome \<Rightarrow> bool" where
  "settles FetchStalls = False"
| "settles (Response True (Some (chunks, ReadStalls))) = False"
| "settles net = True"

text \<open>
  The request fails or the stream breaks: \<open>fetch\<close> rejects, the status is not 2xx,
  there is no body, or a read rejects after some chunks.
\<close>

fun fails :: "fetch_outcome \<Rightarrow> bool" where
  "fails FetchRejects = True"
| "fails (Response False body) = True"
| "fails (Response True None) = True"
| "fails (Response True (Some (chunks, ReadRejects))) = True"
| "fails net = False"

text \<open>The chunks the handler reads before the stream ends, fails or stalls.\<close>

fun chunks_read :: "fetch_outcome \<Rightarrow> byte list list" where
  "chunks_read (Response True (Some (chunks, ending))) = chunks"
| "chunks_read net = []"

text \<open>
  An unfinished tail: bytes that open a multi-byte sequence in decoder \<open>u\<close> and do
  not complete it, so that nothing is decoded from them yet.
\<close>

definition unfinished :: "utf8_decoder \<Rightarrow> byte list \<Rightarrow> bool" where
  "unfinished u tail =
     (snd (utf8_run u tail) = [] \<and> bytes_needed (fst (utf8_run u tail)) \<noteq> 0)"

text \<open>
  The bot turn a submission leaves behind when the error message does not reach it: the
  text decoded from the chunks read, and the loader still shown when no chunk was read.
\<close>

definition final_bot :: "fetch_outcome \<Rightarrow> chat" where
  "final_bot net =
     \<lparr>type = Bot, text = snd (decode new_TextDecoder (concat (chunks_read net))),
      loading = Some (chunks_read net = [])\<rparr>"

text \<open>
  The effects a handler performs after it has appended the turn pair: a partial update
  of the read loop, the update of the \<open>catch\<close> block, or an effect that is not a
  history update.
\<close>

definition later_effect :: "nat \<Rightarrow> effect \<Rightarrow> bool" where
  "later_effect l e \<longleftrightarrow>
     (\<exists>t. e = SetChatHistory (updateTurnText (Some l) t)) \<or>
     e = SetChatHistory (updateTurnText None errorMessage) \<or>
     (case e of SetChatHistory f \<Rightarrow> False | _ \<Rightarrow> True)"

text \<open>An effect that throws in no state.\<close>

definition never_throws :: "effect \<Rightarrow> bool" where
  "never_throws e \<longleftrightarrow> (\<forall>s. \<not> throws e s)"

text \<open>
  The effects both handlers perform. \<open>preventDefault\<close>, \<open>setInput\<close> and
  \<open>setResponse\<close> are called by \<open>handleSend\<close> only.
\<close>

fun shared_effect :: "effect \<Rightarrow> bool" where
  "shared_effect PreventDefault = False"
| "shared_effect (SetInput q) = False"
| "shared_effect (SetResponse t) = False"
| "shared_effect e = True"

text \<open>
  Two submissions that overlap. \<open>handleQueryClick\<close> has performed its first \<open>k\<close>
  effects and is suspended at an \<open>await\<close>; the user types \<open>q\<close> and submits it,
  and \<open>handleSend\<close>, closing over the state rendered at that moment, runs to its
  end; then \<open>handleQueryClick\<close> resumes.
\<close>

definition overlapping ::
  "jsstring \<Rightarrow> fetch_outcome \<Rightarrow> nat \<Rightarrow> jsstring \<Rightarrow> fetch_outcome \<Rightarrow> app_state \<Rightarrow> effect list" where
  "overlapping query net k q net' s =
     (let first = fst (handleQueryClick query net s);
          before = take k first @ [SetInput q];
          second = fst (handleSend net' (run_effects before s))
      in before @ second @ drop k first)"

section \<open>The decoder over chunk boundaries\<close>

lemma utf8_run_append:
  "utf8_run d (a @ b) =
     (fst (utf8_run (fst (utf8_run d a)) b),
      snd (utf8_run d a) @ snd (utf8_run (fst (utf8_run d a)) b))"
  by (induction a arbitrary: d) (simp_all add: split_beta)

lemma serialize_append:
  "serialize seen (a @ b) =
     (fst (serialize (fst (serialize seen a)) b),
      snd (serialize seen a) @ snd (serialize (fst (serialize seen a)) b))"
  by (induction seen a rule: serialize.induct) (simp_all add: split_beta)

lemma decode_append:
  "decode d (a @ b) =
     (fst (decode (fst (decode d a)) b),
      snd (decode d a) @ snd (decode (fst (decode d a)) b))"
  by (simp add: decode_def split_beta utf8_run_append serialize_append)

lemma decode_Nil: "decode d [] = (d, [])"
  by (simp add: decode_def)

section \<open>The history updaters\<close>

lemma updateTurnText_None:
  "updateTurnText None t prev =
     (if prev = [] then Inr [] else Inl (ReferenceError ''loaderIndex is not defined''))"
  by (cases prev) (simp_all add: updateTurnText_def replace_text_def)

lemma array_map_Some:
  "array_map (replace_text (Some l) t) k xs =
     Inr (map (\<lambda>(i, c). if i = l + 1 then c\<lparr>text := t, loading := Some False\<rparr> else c)
            (enumerate k xs))"
  by (induction xs arbitrary: k) (simp_all add: replace_text_def)

lemma updateTurnText_Some:
  "updateTurnText (Some l) t prev =
     Inr (map (\<lambda>(i, c). if i = l + 1 then c\<lparr>text := t, loading := Some False\<rparr> else c)
            (enumerate 0 prev))"
  by (simp add: updateTurnText_def array_map_Some)

lemma array_map_pair:
  "array_map (replace_text (Some (k + length h)) t) k (h @ [u, b]) =
     Inr (h @ [u, b\<lparr>text := t, loading := Some False\<rparr>])"
proof (induction h arbitrary: k)
  case Nil
  show ?case by (simp add: replace_text_def)
next
  case (Cons x h)
  have step: "replace_text (Some (Suc (k + length h))) t x k = Inr x"
    by (simp add: replace_text_def)
  have "array_map (replace_text (Some (Suc k + length h)) t) (Suc k) (h @ [u, b]) =
          Inr (h @ [u, b\<lparr>text := t, loading := Some False\<rparr>])"
    by (rule Cons.IH)
  with step show ?case by simp
qed

lemma updateTurnText_pair:
  "updateTurnText (Some (length h)) t (h @ [u, b]) =
     Inr (h @ [u, b\<lparr>text := t, loading := Some False\<rparr>])"
  using array_map_pair [of 0 h t u b] by (simp add: updateTurnText_def)

lemma updateTurnText_list_update:
  "updateTurnText (Some l) t prev =
     Inr (prev[l + 1 := (prev ! (l + 1))\<lparr>text := t, loading := Some False\<rparr>])"
proof -
  have "map (\<lambda>(i, c). if i = l + 1 then c\<lparr>text := t, loading := Some False\<rparr> else c)
          (enumerate 0 prev) =
        prev[l + 1 := (prev ! (l + 1))\<lparr>text := t, loading := Some False\<rparr>]"
    by (rule nth_equalityI) (simp_all add: nth_enumerate_eq nth_list_update)
  then show ?thesis by (simp only: updateTurnText_Some)
qed

section \<open>Effects that throw\<close>

lemma throws_append [simp]: "throws (SetChatHistory (appendTurnPair q)) s = False"
  by (simp add: appendTurnPair_def)

lemma throws_partial [simp]: "throws (SetChatHistory (updateTurnText (Some l) t)) s = False"
  by (simp add: updateTurnText_list_update)

lemma throws_failed [simp]:
  "throws (SetChatHistory (updateTurnText None t)) s = (chatHistory s \<noteq> [])"
  by (simp add: updateTurnText_None)

declare throws.simps(1) [simp del]

lemma never_throws_simps [simp]:
  "never_throws (SetChatHistory (appendTurnPair q))"
  "never_throws (SetChatHistory (updateTurnText (Some l) t))"
  "never_throws PreventDefault"
  "never_throws (SetShowResult b)"
  "never_throws (SetLoadings b)"
  "never_throws (SetRecentPrompt q)"
  "never_throws (SetInput q)"
  "never_throws (Fetch r)"
  "never_throws (SetResponse q)"
  "never_throws (SetPreviousPrompt g)"
  "never_throws (ConsoleError err)"
  by (simp_all add: never_throws_def)

lemma run_effects_Nil: "run_effects [] s = s"
  by simp

lemma run_effects_Cons:
  "run_effects (e # es) s =
     (if throws e s then apply_effect e s else run_effects es (apply_effect e s))"
  by simp

lemma run_effects_append:
  "\<forall>e \<in> set a. never_throws e \<Longrightarrow> run_effects (a @ b) s = run_effects b (run_effects a s)"
  by (induction a arbitrary: s) (simp_all add: never_throws_def)

section \<open>The read loops and the state a handler leaves\<close>

lemma handleSend_loop_eq:
  "handleSend_loop l d acc cs =
     (map (\<lambda>t. SetChatHistory (updateTurnText (Some l) t)) (accumulated d acc cs),
      last (acc # accumulated d acc cs))"
  by (induction cs arbitrary: d acc) (simp_all add: split_beta Let_def)

lemma handleQueryClick_loop_eq:
  "handleQueryClick_loop l d acc cs =
     (map (\<lambda>t. SetChatHistory (updateTurnText (Some l) t)) (accumulated d acc cs),
      last (acc # accumulated d acc cs))"
  by (induction cs arbitrary: d acc) (simp_all add: split_beta Let_def)

lemma accumulated_last:
  "last (acc # accumulated d acc cs) = acc @ concat (decoded_chunks d cs)"
  by (induction cs arbitrary: d acc) (simp_all add: split_beta)

lemma concat_decoded_chunks:
  "concat (decoded_chunks d cs) = snd (decode d (concat cs))"
  by (induction cs arbitrary: d) (simp_all add: split_beta decode_Nil decode_append)

lemma accumulated_Nil_iff: "accumulated d acc cs = [] \<longleftrightarrow> cs = []"
  by (cases cs) (simp_all add: split_beta)

lemma length_accumulated: "length (accumulated d acc cs) = length cs"
  by (induction cs arbitrary: d acc) (simp_all add: split_beta)

lemma run_partials:
  "run_effects (map (\<lambda>t. SetChatHistory (updateTurnText (Some l) t)) ts) s =
     (if ts = [] then s
      else s\<lparr>chatHistory :=
               (chatHistory s)[l + 1 :=
                  (chatHistory s ! (l + 1))\<lparr>text := last ts, loading := Some False\<rparr>]\<rparr>)"
proof (induction ts arbitrary: s)
  case Nil
  show ?case by (simp add: run_effects_Nil)
next
  case (Cons t ts)
  let ?h = "chatHistory s"
  let ?s' = "s\<lparr>chatHistory := ?h[l + 1 := (?h ! (l + 1))\<lparr>text := t, loading := Some False\<rparr>]\<rparr>"
  have step: "apply_effect (SetChatHistory (updateTurnText (Some l) t)) s = ?s'"
    by (simp add: updateTurnText_list_update)
  have "run_effects (map (\<lambda>t. SetChatHistory (updateTurnText (Some l) t)) (t # ts)) s =
          run_effects (map (\<lambda>t. SetChatHistory (updateTurnText (Some l) t)) ts) ?s'"
    by (simp only: list.map run_effects_Cons step throws_partial if_False)
  also have "\<dots> = (if ts = [] then ?s'
      else ?s'\<lparr>chatHistory :=
               (chatHistory ?s')[l + 1 :=
                  (chatHistory ?s' ! (l + 1))\<lparr>text := last ts, loading := Some False\<rparr>]\<rparr>)"
    by (rule Cons.IH)
  also have "\<dots> = s\<lparr>chatHistory :=
               ?h[l + 1 := (?h ! (l + 1))\<lparr>text := last (t # ts), loading := Some False\<rparr>]\<rparr>"
    by (cases "l + 1 < length ?h") (simp_all add: list_update_beyond)
  finally show ?case by simp
qed

lemma final_text:
  "last ([] # accumulated new_TextDecoder [] cs) = snd (decode new_TextDecoder (concat cs))"
  by (simp only: accumulated_last concat_decoded_chunks append_Nil)

lemma final_text_chunks:
  "cs \<noteq> [] \<Longrightarrow>
   last (accumulated new_TextDecoder [] cs) = snd (decode new_TextDecoder (concat cs))"
  using final_text [of cs] by (simp add: accumulated_Nil_iff)

lemma after_handleSend_eq:
  assumes "input s \<noteq> []"
  shows "after_handleSend net s =
     s\<lparr>showResult := True, loadings := \<not> settles net \<or> fails net, recentPrompt := input s,
       chatHistory := chatHistory s
          @ [\<lparr>type = User, text = input s, loading = None\<rparr>, final_bot net],
       input := [],
       response := (if fails net then errorMessage
                    else if settles net then text (final_bot net) else response s),
       previousPrompt := (if settles net \<and> \<not> fails net then previousPrompt s @ [input s]
                          else previousPrompt s),
       uncaught := (if fails net then Some (ReferenceError ''loaderIndex is not defined'')
                    else uncaught s)\<rparr>"
proof (cases net)
  case FetchRejects
  then show ?thesis using assms
    by (simp add: after_handleSend_def handleSend_def handleSend_catch_def run_effects_Cons
        run_effects_Nil appendTurnPair_def updateTurnText_None final_bot_def decode_Nil)
next
  case FetchStalls
  then show ?thesis using assms
    by (simp add: after_handleSend_def handleSend_def run_effects_Cons
        run_effects_Nil appendTurnPair_def final_bot_def decode_Nil)
next
  case (Response ok body)
  show ?thesis
  proof (cases "ok \<and> body \<noteq> None")
    case False
    with Response show ?thesis using assms
      by (cases ok; cases body)
         (simp_all add: after_handleSend_def handleSend_def handleSend_catch_def run_effects_Cons
          run_effects_Nil appendTurnPair_def updateTurnText_None final_bot_def decode_Nil)
  next
    case True
    then obtain chunks ending where b: "ok" "body = Some (chunks, ending)" by auto
    show ?thesis
      using Response b assms
      by (cases ending; cases "chunks = []")
         (simp_all add: after_handleSend_def handleSend_def handleSend_catch_def
          handleSend_loop_eq run_effects_append run_partials accumulated_Nil_iff
          run_effects_Cons run_effects_Nil appendTurnPair_def updateTurnText_None
          final_bot_def decode_Nil final_text_chunks nth_append list_update_append)
  qed
qed

lemma after_handleQueryClick_eq:
  "after_handleQueryClick query net s =
     s\<lparr>showResult := True, loadings := \<not> settles net \<or> fails net, recentPrompt := query,
       chatHistory := chatHistory s
          @ [\<lparr>type = User, text = query, loading = None\<rparr>, final_bot net],
       previousPrompt := (if settles net \<and> \<not> fails net then previousPrompt s @ [query]
                          else previousPrompt s),
       uncaught := (if fails net then Some (ReferenceError ''loaderIndex is not defined'')
                    else uncaught s)\<rparr>"
proof (cases net)
  case FetchRejects
  then show ?thesis
    by (simp add: after_handleQueryClick_def handleQueryClick_def handleQueryClick_catch_def
        run_effects_Cons run_effects_Nil appendTurnPair_def updateTurnText_None final_bot_def
        decode_Nil)
next
  case FetchStalls
  then show ?thesis
    by (simp add: after_handleQueryClick_def handleQueryClick_def run_effects_Cons
        run_effects_Nil appendTurnPair_def final_bot_def decode_Nil)
next
  case (Response ok body)
  show ?thesis
  proof (cases "ok \<and> body \<noteq> None")
    case False
    with Response show ?thesis
      by (cases ok; cases body)
         (simp_all add: after_handleQueryClick_def handleQueryClick_def
          handleQueryClick_catch_def run_effects_Cons run_effects_Nil appendTurnPair_def
          updateTurnText_None final_bot_def decode_Nil)
  next
    case True
    then obtain chunks ending where b: "ok" "body = Some (chunks, ending)" by auto
    show ?thesis
      using Response b
      by (cases ending; cases "chunks = []")
         (simp_all add: after_handleQueryClick_def handleQueryClick_def
          handleQueryClick_catch_def handleQueryClick_loop_eq run_effects_append run_partials
          accumulated_Nil_iff run_effects_Cons run_effects_Nil appendTurnPair_def
          updateTurnText_None final_bot_def decode_Nil final_text_chunks nth_append
          list_update_append)
  qed
qed

lemma handleSend_loadings: "handleSend net (s\<lparr>loadings := b\<rparr>) = handleSend net s"
  by (simp add: handleSend_def Let_def
      split: fetch_outcome.split option.split stream_end.split prod.split)

lemma handleQueryClick_loadings:
  "handleQueryClick q net (s\<lparr>loadings := b\<rparr>) = handleQueryClick q net s"
  by (simp add: handleQueryClick_def Let_def
      split: fetch_outcome.split option.split stream_end.split prod.split)

lemma loop_text_handleSend:
  "snd (handleSend_loop l new_TextDecoder [] chunks) =
     snd (decode new_TextDecoder (concat chunks))"
  by (simp only: handleSend_loop_eq snd_conv final_text)

lemma loop_text_handleQueryClick:
  "snd (handleQueryClick_loop l new_TextDecoder [] chunks) =
     snd (decode new_TextDecoder (concat chunks))"
  by (simp only: handleQueryClick_loop_eq snd_conv final_text)

lemma decode_unfinished:
  assumes "unfinished (utf8 d) tail"
  shows "snd (decode d tail) = []"
    and "bytes_needed (utf8 (fst (decode d tail))) \<noteq> 0"
    and "BOM_seen (fst (decode d tail)) = BOM_seen d"
  using assms by (simp_all add: unfinished_def decode_def split_beta)

lemma decode_flush_pending:
  "bytes_needed (utf8 d) \<noteq> 0 \<Longrightarrow> decode_flush d = [0xFFFD]"
  by (simp add: decode_flush_def utf16_def)

section \<open>Traces of a handler\<close>

lemma states_append:
  "\<forall>e \<in> set a. never_throws e \<Longrightarrow> states (a @ b) s = states a s @ states b (run_effects a s)"
  by (induction a arbitrary: s) (simp_all add: never_throws_def)

lemma length_states: "\<forall>e \<in> set es. never_throws e \<Longrightarrow> length (states es s) = length es"
  by (induction es arbitrary: s) (simp_all add: never_throws_def)

lemma loadings_writes_append:
  "loadings_writes (a @ b) = loadings_writes a @ loadings_writes b"
  by (induction a rule: loadings_writes.induct) simp_all

lemma loadings_writes_partials:
  "loadings_writes (map (\<lambda>t. SetChatHistory (f t)) ts) = []"
  by (induction ts) simp_all

lemma quiet_apply: "loadings_writes [e] = [] \<Longrightarrow> loadings (apply_effect e s) = loadings s"
  by (cases e) (simp_all split: sum.split)

lemma quiet_states:
  "\<forall>e \<in> set es. never_throws e \<Longrightarrow> loadings_writes es = [] \<Longrightarrow>
   map loadings (states es s) = replicate (length es) (loadings s)"
proof (induction es arbitrary: s)
  case Nil
  show ?case by simp
next
  case (Cons e es)
  from Cons.prems(2) have e: "loadings_writes [e] = []" and es: "loadings_writes es = []"
    by (cases e; simp)+
  from Cons.prems(1) have safe: "\<not> throws e s" "\<forall>e \<in> set es. never_throws e"
    by (simp_all add: never_throws_def)
  from quiet_apply [OF e] Cons.IH [OF safe(2) es] safe(1) show ?case by simp
qed

lemma quiet_butlast:
  assumes "loadings_writes es = [b]" and "es \<noteq> []" and "last es = SetLoadings b"
  shows "loadings_writes (butlast es) = []"
proof -
  have "es = butlast es @ [SetLoadings b]"
    using assms(2,3) by (metis append_butlast_last_id)
  then have "loadings_writes es = loadings_writes (butlast es) @ [b]"
    by (metis loadings_writes_append loadings_writes.simps(1,2))
  with assms(1) show ?thesis by simp
qed

text \<open>The values of \<open>loadings\<close> along a handler whose effects have the given shape.\<close>

lemma loadings_trace_settled:
  assumes pre: "es = pre @ SetLoadings True # rest"
    and safe: "\<forall>e \<in> set es. never_throws e"
    and q: "loadings_writes pre = []"
    and w: "loadings_writes rest = [False]"
    and l: "rest \<noteq> []" "last rest = SetLoadings False"
  shows "map loadings (states es s) =
           replicate (length pre) (loadings s) @ replicate (length es - length pre - 1) True @ [False]"
proof -
  let ?mid = "butlast rest"
  have mid: "loadings_writes ?mid = []" using quiet_butlast [OF w l] .
  have rest: "rest = ?mid @ [SetLoadings False]"
    using l by (metis append_butlast_last_id)
  have es: "es = pre @ [SetLoadings True] @ ?mid @ [SetLoadings False]"
    using pre rest by simp
  have len: "length es - length pre - 1 = Suc (length ?mid)"
    by (subst es) simp
  have sp: "\<forall>e \<in> set pre. never_throws e" and sm: "\<forall>e \<in> set ?mid. never_throws e"
    using safe by (subst (asm) es, simp)+
  have "map loadings (states es s) =
          replicate (length pre) (loadings s) @ [True] @ replicate (length ?mid) True @ [False]"
    by (subst es)
       (simp add: states_append sp sm quiet_states [OF sp q] quiet_states [OF sm mid])
  then show ?thesis unfolding len by simp
qed

lemma loadings_trace_suspended:
  assumes pre: "es = pre @ SetLoadings True # rest"
    and safe: "\<forall>e \<in> set es. never_throws e"
    and q: "loadings_writes pre = []"
    and w: "loadings_writes rest = []"
  shows "map loadings (states es s) =
           replicate (length pre) (loadings s) @ replicate (length es - length pre) True"
proof -
  have len: "length es - length pre = Suc (length rest)"
    by (subst pre) simp
  have sp: "\<forall>e \<in> set pre. never_throws e" and sr: "\<forall>e \<in> set rest. never_throws e"
    using safe by (subst (asm) pre, simp)+
  have "map loadings (states es s) =
          replicate (length pre) (loadings s) @ [True] @ replicate (length rest) True"
    by (subst pre)
       (simp add: states_append sp sr quiet_states [OF sp q] quiet_states [OF sr w])
  then show ?thesis unfolding len by simp
qed

lemma handleSend_shape:
  assumes "input s \<noteq> []"
  shows "fst (handleSend net s) =
           [PreventDefault, SetShowResult True] @
             SetLoadings True # drop 3 (fst (handleSend net s)) \<and>
         loadings_writes (drop 3 (fst (handleSend net s))) =
           (if settles net then [False] else []) \<and>
         (settles net \<longrightarrow> drop 3 (fst (handleSend net s)) \<noteq> [] \<and>
            last (drop 3 (fst (handleSend net s))) = SetLoadings False) \<and>
         snd (handleSend net s) = (if settles net then Returned else Suspended)"
proof (cases net)
  case FetchRejects
  then show ?thesis using assms
    by (simp add: handleSend_def handleSend_catch_def)
next
  case FetchStalls
  then show ?thesis using assms
    by (simp add: handleSend_def)
next
  case (Response ok body)
  show ?thesis
  proof (cases "ok \<and> body \<noteq> None")
    case False
    with Response show ?thesis using assms
      by (cases ok; cases body) (simp_all add: handleSend_def handleSend_catch_def)
  next
    case True
    then obtain chunks ending where b: "ok" "body = Some (chunks, ending)" by auto
    show ?thesis
      using Response b assms
      by (cases ending)
         (simp_all add: handleSend_def handleSend_catch_def handleSend_loop_eq
           loadings_writes_append loadings_writes_partials)
  qed
qed

lemma handleQueryClick_shape:
  "fst (handleQueryClick query net s) =
           [SetShowResult True] @ SetLoadings True # drop 2 (fst (handleQueryClick query net s)) \<and>
         loadings_writes (drop 2 (fst (handleQueryClick query net s))) =
           (if settles net then [False] else []) \<and>
         (settles net \<longrightarrow> drop 2 (fst (handleQueryClick query net s)) \<noteq> [] \<and>
            last (drop 2 (fst (handleQueryClick query net s))) = SetLoadings False) \<and>
         snd (handleQueryClick query net s) = (if settles net then Returned else Suspended)"
proof (cases net)
  case FetchRejects
  then show ?thesis
    by (simp add: handleQueryClick_def handleQueryClick_catch_def)
next
  case FetchStalls
  then show ?thesis
    by (simp add: handleQueryClick_def)
next
  case (Response ok body)
  show ?thesis
  proof (cases "ok \<and> body \<noteq> None")
    case False
    with Response show ?thesis
      by (cases ok; cases body) (simp_all add: handleQueryClick_def handleQueryClick_catch_def)
  next
    case True
    then obtain chunks ending where b: "ok" "body = Some (chunks, ending)" by auto
    show ?thesis
      using Response b
      by (cases ending)
         (simp_all add: handleQueryClick_def handleQueryClick_catch_def
           handleQueryClick_loop_eq loadings_writes_append loadings_writes_partials)
  qed
qed

lemma later_effect_simps:
  "later_effect l (SetChatHistory (updateTurnText (Some l) t))"
  "later_effect l (SetChatHistory (updateTurnText None errorMessage))"
  "later_effect l PreventDefault"
  "later_effect l (SetShowResult b)"
  "later_effect l (SetLoadings b)"
  "later_effect l (SetRecentPrompt q)"
  "later_effect l (SetInput q)"
  "later_effect l (Fetch r)"
  "later_effect l (SetResponse q)"
  "later_effect l (SetPreviousPrompt g)"
  "later_effect l (ConsoleError err)"
  by (auto simp: later_effect_def)

lemma handleSend_later:
  assumes "input s \<noteq> []"
  shows "fst (handleSend net s) =
           [PreventDefault, SetShowResult True, SetLoadings True, SetRecentPrompt (input s)] @
             SetChatHistory (appendTurnPair (input s)) # drop 5 (fst (handleSend net s)) \<and>
         (\<forall>e \<in> set (drop 5 (fst (handleSend net s))). later_effect (length (chatHistory s)) e)"
proof (cases net)
  case FetchRejects
  then show ?thesis using assms
    by (simp add: handleSend_def handleSend_catch_def later_effect_simps)
next
  case FetchStalls
  then show ?thesis using assms
    by (simp add: handleSend_def later_effect_simps)
next
  case (Response ok body)
  show ?thesis
  proof (cases "ok \<and> body \<noteq> None")
    case False
    with Response show ?thesis using assms
      by (cases ok; cases body)
         (simp_all add: handleSend_def handleSend_catch_def later_effect_simps)
  next
    case True
    then obtain chunks ending where b: "ok" "body = Some (chunks, ending)" by auto
    show ?thesis
      using Response b assms
      by (cases ending)
         (auto simp add: handleSend_def handleSend_catch_def handleSend_loop_eq
           later_effect_simps)
  qed
qed

lemma handleQueryClick_later:
  "fst (handleQueryClick query net s) =
           [SetShowResult True, SetLoadings True, SetRecentPrompt query] @
             SetChatHistory (appendTurnPair query) # drop 4 (fst (handleQueryClick query net s)) \<and>
         (\<forall>e \<in> set (drop 4 (fst (handleQueryClick query net s))).
            later_effect (length (chatHistory s)) e)"
proof (cases net)
  case FetchRejects
  then show ?thesis
    by (simp add: handleQueryClick_def handleQueryClick_catch_def later_effect_simps)
next
  case FetchStalls
  then show ?thesis
    by (simp add: handleQueryClick_def later_effect_simps)
next
  case (Response ok body)
  show ?thesis
  proof (cases "ok \<and> body \<noteq> None")
    case False
    with Response show ?thesis
      by (cases ok; cases body)
         (simp_all add: handleQueryClick_def handleQueryClick_catch_def later_effect_simps)
  next
    case True
    then obtain chunks ending where b: "ok" "body = Some (chunks, ending)" by auto
    show ?thesis
      using Response b
      by (cases ending)
         (auto simp add: handleQueryClick_def handleQueryClick_catch_def
           handleQueryClick_loop_eq later_effect_simps)
  qed
qed

text \<open>What an effect after the append does to any history.\<close>

lemma later_effect_frame:
  assumes "later_effect l e"
  shows "length (chatHistory (apply_effect e s)) = length (chatHistory s)"
    and "i \<noteq> l + 1 \<Longrightarrow> chatHistory (apply_effect e s) ! i = chatHistory s ! i"
    and "map type (chatHistory (apply_effect e s)) = map type (chatHistory s)"
proof -
  let ?h = "chatHistory s"
  have upd: "map type (?h[l + 1 := (?h ! (l + 1))\<lparr>text := t, loading := Some False\<rparr>]) = map type ?h"
    for t
    by (cases "l + 1 < length ?h")
       (simp_all add: map_update list_update_beyond list_update_same_conv)
  from assms consider
      (partial) t where "e = SetChatHistory (updateTurnText (Some l) t)"
    | (failed) "e = SetChatHistory (updateTurnText None errorMessage)"
    | (other) "case e of SetChatHistory f \<Rightarrow> False | _ \<Rightarrow> True"
    by (auto simp: later_effect_def)
  then have "length (chatHistory (apply_effect e s)) = length (chatHistory s) \<and>
    (i \<noteq> l + 1 \<longrightarrow> chatHistory (apply_effect e s) ! i = chatHistory s ! i) \<and>
    map type (chatHistory (apply_effect e s)) = map type (chatHistory s)"
  proof cases
    case partial
    then show ?thesis using upd by (simp add: updateTurnText_list_update)
  next
    case failed
    then show ?thesis by (simp add: updateTurnText_None)
  next
    case other
    then show ?thesis by (cases e) simp_all
  qed
  then show "length (chatHistory (apply_effect e s)) = length (chatHistory s)"
    and "i \<noteq> l + 1 \<Longrightarrow> chatHistory (apply_effect e s) ! i = chatHistory s ! i"
    and "map type (chatHistory (apply_effect e s)) = map type (chatHistory s)"
    by simp_all
qed

lemma later_effect_pair:
  assumes "later_effect (length h) e" and "chatHistory s = h @ [u, b]" and "type b = Bot"
  shows "\<exists>b'. chatHistory (apply_effect e s) = h @ [u, b'] \<and> type b' = Bot"
proof -
  from assms(1) consider
      (partial) t where "e = SetChatHistory (updateTurnText (Some (length h)) t)"
    | (failed) "e = SetChatHistory (updateTurnText None errorMessage)"
    | (other) "case e of SetChatHistory f \<Rightarrow> False | _ \<Rightarrow> True"
    by (auto simp: later_effect_def)
  then show ?thesis
  proof cases
    case partial
    then show ?thesis using assms(2,3) by (simp add: updateTurnText_pair)
  next
    case failed
    then show ?thesis using assms(2,3) by (simp add: updateTurnText_None)
  next
    case other
    then show ?thesis using assms(2,3) by (cases e) simp_all
  qed
qed

lemma states_invariant:
  assumes "P s" and "\<And>e s. e \<in> set es \<Longrightarrow> P s \<Longrightarrow> P (apply_effect e s)"
  shows "\<forall>s' \<in> set (states es s). P s'"
  using assms
proof (induction es arbitrary: s)
  case Nil
  show ?case by simp
next
  case (Cons e es)
  have "P (apply_effect e s)" using Cons.prems by simp
  moreover have "\<forall>s' \<in> set (states es (apply_effect e s)). P s'"
    using Cons.IH [OF \<open>P (apply_effect e s)\<close>] Cons.prems(2) by simp
  ultimately show ?case by simp
qed

lemma pair_trace:
  assumes es: "es = pre @ SetChatHistory (appendTurnPair q) # post"
    and safe: "\<forall>e \<in> set pre. never_throws e"
    and pre: "map chatHistory (states pre s) = replicate (length pre) (chatHistory s)"
    and run: "chatHistory (run_effects pre s) = chatHistory s"
    and post: "\<forall>e \<in> set post. later_effect (length (chatHistory s)) e"
  shows "map chatHistory (take (length pre) (states es s)) =
           replicate (length pre) (chatHistory s) \<and>
         chatHistory (states es s ! length pre) =
           chatHistory s @ [\<lparr>type = User, text = q, loading = None\<rparr>,
                            \<lparr>type = Bot, text = [], loading = Some True\<rparr>] \<and>
         (\<forall>s' \<in> set (drop (length pre) (states es s)).
           \<exists>b. chatHistory s' =
                  chatHistory s @ [\<lparr>type = User, text = q, loading = None\<rparr>, b] \<and>
                type b = Bot)"
proof -
  let ?u = "\<lparr>type = User, text = q, loading = None\<rparr>"
  let ?b = "\<lparr>type = Bot, text = [], loading = Some True\<rparr>"
  let ?P = "\<lambda>s'. \<exists>b. chatHistory s' = chatHistory s @ [?u, b] \<and> type b = Bot"
  define s5 where "s5 = apply_effect (SetChatHistory (appendTurnPair q)) (run_effects pre s)"
  have h5: "chatHistory s5 = chatHistory s @ [?u, ?b]"
    by (simp add: s5_def appendTurnPair_def run)
  have st: "states es s = states pre s @ s5 # states post s5"
    by (simp add: es states_append [OF safe] s5_def)
  have len: "length (states pre s) = length pre" using safe by (rule length_states)
  have P5: "?P s5" using h5 by simp
  have keep: "?P (apply_effect e s')" if "e \<in> set post" and "?P s'" for e s'
  proof -
    from that(2) obtain b where b: "chatHistory s' = chatHistory s @ [?u, b]" "type b = Bot"
      by blast
    from post that(1) have "later_effect (length (chatHistory s)) e" by blast
    from later_effect_pair [OF this b] show ?thesis .
  qed
  have inv: "\<forall>s' \<in> set (states post s5). ?P s'"
    using P5 keep by (rule states_invariant)
  show ?thesis
    using pre h5 P5 inv by (simp add: st len nth_append)
qed

lemma filter_shared_partials:
  "filter shared_effect (map (\<lambda>t. SetChatHistory (f t)) ts) = map (\<lambda>t. SetChatHistory (f t)) ts"
  by (induction ts) simp_all

lemma handleQueryClick_filter:
  assumes "input s \<noteq> []"
  shows "fst (handleQueryClick (input s) net s) = filter shared_effect (fst (handleSend net s))"
proof (cases net)
  case FetchRejects
  then show ?thesis using assms
    by (simp add: handleSend_def handleSend_catch_def handleQueryClick_def
        handleQueryClick_catch_def)
next
  case FetchStalls
  then show ?thesis using assms
    by (simp add: handleSend_def handleQueryClick_def)
next
  case (Response ok body)
  show ?thesis
  proof (cases "ok \<and> body \<noteq> None")
    case False
    with Response show ?thesis using assms
      by (cases ok; cases body)
         (simp_all add: handleSend_def handleSend_catch_def handleQueryClick_def
           handleQueryClick_catch_def)
  next
    case True
    then obtain chunks ending where b: "ok" "body = Some (chunks, ending)" by auto
    show ?thesis
      using Response b assms
      by (cases ending)
         (simp_all add: handleSend_def handleSend_catch_def handleSend_loop_eq
           handleQueryClick_def handleQueryClick_catch_def handleQueryClick_loop_eq
           filter_shared_partials)
  qed
qed

lemma accumulated_prefix:
  "\<forall>t \<in> set (accumulated d acc cs). prefix acc t"
proof (induction cs arbitrary: d acc)
  case Nil
  show ?case by simp
next
  case (Cons v cs)
  obtain d' chunk where dv: "decode d v = (d', chunk)" by (cases "decode d v")
  have "\<forall>t \<in> set (accumulated d' (acc @ chunk) cs). prefix (acc @ chunk) t"
    by (rule Cons.IH)
  then have "\<forall>t \<in> set (accumulated d' (acc @ chunk) cs). prefix acc t"
    by (meson append_prefixD)
  then show ?case by (simp add: dv)
qed

lemma accumulated_sorted: "sorted_wrt prefix (accumulated d acc cs)"
proof (induction cs arbitrary: d acc)
  case Nil
  show ?case by simp
next
  case (Cons v cs)
  obtain d' chunk where dv: "decode d v = (d', chunk)" by (cases "decode d v")
  show ?case
    using Cons.IH [of d' "acc @ chunk"] accumulated_prefix [of d' "acc @ chunk" cs]
    by (simp add: dv)
qed

lemma displayed_texts:
  "l + 1 < length (chatHistory s) \<Longrightarrow>
   map (\<lambda>s'. text (chatHistory s' ! (l + 1)))
     (states (map (\<lambda>t. SetChatHistory (updateTurnText (Some l) t)) ts) s) = ts"
proof (induction ts arbitrary: s)
  case Nil
  show ?case by simp
next
  case (Cons t ts)
  let ?s' = "apply_effect (SetChatHistory (updateTurnText (Some l) t)) s"
  have h: "chatHistory ?s' =
             (chatHistory s)[l + 1 := (chatHistory s ! (l + 1))\<lparr>text := t, loading := Some False\<rparr>]"
    by (simp add: updateTurnText_list_update)
  have len: "l + 1 < length (chatHistory ?s')" using Cons.prems by (simp only: h length_list_update)
  have t: "text (chatHistory ?s' ! (l + 1)) = t" using Cons.prems by (simp only: h) simp
  from Cons.IH [OF len] t show ?case by (simp del: apply_effect.simps)
qed

lemma requests_append: "requests (a @ b) = requests a @ requests b"
  by (induction a rule: requests.induct) simp_all

lemma requests_partials: "requests (map (\<lambda>t. SetChatHistory (f t)) ts) = []"
  by (induction ts) simp_all

lemma handleSend_requests:
  "requests (fst (handleSend net s)) =
     (if input s = [] then []
      else [\<lparr>question = input s, provider = js ''openai'', model = js ''gpt-4o-mini''\<rparr>])"
proof (cases "input s = []")
  case True
  then show ?thesis by (simp add: handleSend_def)
next
  case q: False
  show ?thesis
  proof (cases net)
    case FetchRejects
    then show ?thesis using q by (simp add: handleSend_def handleSend_catch_def)
  next
    case FetchStalls
    then show ?thesis using q by (simp add: handleSend_def)
  next
    case (Response ok body)
    show ?thesis
    proof (cases "ok \<and> body \<noteq> None")
      case False
      with Response show ?thesis using q
        by (cases ok; cases body) (simp_all add: handleSend_def handleSend_catch_def)
    next
      case True
      then obtain chunks ending where b: "ok" "body = Some (chunks, ending)" by auto
      show ?thesis
        using Response b q
        by (cases ending)
           (simp_all add: handleSend_def handleSend_catch_def handleSend_loop_eq
             requests_append requests_partials)
    qed
  qed
qed

lemma handleQueryClick_requests:
  "requests (fst (handleQueryClick query net s)) =
     [\<lparr>question = query, provider = js ''openai'', model = js ''gpt-4o-mini''\<rparr>]"
proof (cases net)
  case FetchRejects
  then show ?thesis by (simp add: handleQueryClick_def handleQueryClick_catch_def)
next
  case FetchStalls
  then show ?thesis by (simp add: handleQueryClick_def)
next
  case (Response ok body)
  show ?thesis
  proof (cases "ok \<and> body \<noteq> None")
    case False
    with Response show ?thesis
      by (cases ok; cases body) (simp_all add: handleQueryClick_def handleQueryClick_catch_def)
  next
    case True
    then obtain chunks ending where b: "ok" "body = Some (chunks, ending)" by auto
    show ?thesis
      using Response b
      by (cases ending)
         (simp_all add: handleQueryClick_def handleQueryClick_catch_def
           handleQueryClick_loop_eq requests_append requests_partials)
  qed
qed

text \<open>When the request does not fail, no effect of a handler throws.\<close>

lemma handleSend_safe:
  assumes "input s \<noteq> []" and "\<not> fails net"
  shows "\<forall>e \<in> set (fst (handleSend net s)). never_throws e"
proof (cases net)
  case FetchRejects
  then show ?thesis using assms by simp
next
  case FetchStalls
  then show ?thesis using assms by (simp add: handleSend_def)
next
  case (Response ok body)
  with assms(2) obtain chunks ending where b: "ok" "body = Some (chunks, ending)"
    by (cases ok; cases body) auto
  show ?thesis
    using Response b assms
    by (cases ending) (auto simp add: handleSend_def handleSend_loop_eq)
qed

lemma handleQueryClick_safe:
  assumes "\<not> fails net"
  shows "\<forall>e \<in> set (fst (handleQueryClick query net s)). never_throws e"
proof (cases net)
  case FetchRejects
  then show ?thesis using assms by simp
next
  case FetchStalls
  then show ?thesis using assms by (simp add: handleQueryClick_def)
next
  case (Response ok body)
  with assms obtain chunks ending where b: "ok" "body = Some (chunks, ending)"
    by (cases ok; cases body) auto
  show ?thesis
    using Response b assms
    by (cases ending) (auto simp add: handleQueryClick_def handleQueryClick_loop_eq)
qed

section \<open>Submitting while a request is in flight\<close>

text \<open>
  C1, as the code has it. Neither handler reads \<open>loadings\<close>: a submission made
  while a request is in flight is handled exactly like one made while none is. The
  history grows by two turns and one request, for the question, is sent, for every
  non-empty \<open>input\<close> of \<open>handleSend\<close> and for every query of
  \<open>handleQueryClick\<close>; only the empty \<open>input\<close> leaves the length of the history
  unchanged and sends nothing.
\<close>

theorem C1_pending_not_checked:
  "handleSend net (s\<lparr>loadings := True\<rparr>) = handleSend net (s\<lparr>loadings := False\<rparr>) \<and>
   handleQueryClick q net (s\<lparr>loadings := True\<rparr>) =
     handleQueryClick q net (s\<lparr>loadings := False\<rparr>) \<and>
   length (chatHistory (after_handleSend net (s\<lparr>loadings := True\<rparr>))) =
     (if input s = [] then length (chatHistory s) else length (chatHistory s) + 2) \<and>
   length (chatHistory (after_handleQueryClick q net (s\<lparr>loadings := True\<rparr>))) =
     length (chatHistory s) + 2 \<and>
   requests (fst (handleSend net (s\<lparr>loadings := True\<rparr>))) =
     (if input s = [] then []
      else [\<lparr>question = input s, provider = js ''openai'', model = js ''gpt-4o-mini''\<rparr>]) \<and>
   requests (fst (handleQueryClick q net (s\<lparr>loadings := True\<rparr>))) =
     [\<lparr>question = q, provider = js ''openai'', model = js ''gpt-4o-mini''\<rparr>]"
proof -
  have "length (chatHistory (after_handleSend net (s\<lparr>loadings := True\<rparr>))) =
     (if input s = [] then length (chatHistory s) else length (chatHistory s) + 2)"
  proof (cases "input s = []")
    case True
    then show ?thesis
      by (simp add: handleSend_def after_handleSend_def run_effects_Cons run_effects_Nil)
  next
    case False
    then have "input (s\<lparr>loadings := True\<rparr>) \<noteq> []" by simp
    from after_handleSend_eq [OF this] False show ?thesis by simp
  qed
  then show ?thesis
    by (simp add: handleSend_loadings handleQueryClick_loadings after_handleQueryClick_eq
        handleSend_requests handleQueryClick_requests)
qed

text \<open>
  The claim C1 fails: with \<open>loadings = true\<close> and the turns of a first question
  \<open>Q1\<close> still loading, \<open>handleSend\<close> with input \<open>Q2\<close> brings the history from
  two turns to four and sends a request for \<open>Q2\<close>.
\<close>

theorem C1_submit_while_pending:
  "loadings (fresh_session\<lparr>chatHistory := [\<lparr>type = User, text = js ''Q1'', loading = None\<rparr>,
        \<lparr>type = Bot, text = [], loading = Some True\<rparr>], input := js ''Q2'', loadings := True\<rparr>) \<and>
   length (chatHistory (after_handleSend FetchStalls
      (fresh_session\<lparr>chatHistory := [\<lparr>type = User, text = js ''Q1'', loading = None\<rparr>,
        \<lparr>type = Bot, text = [], loading = Some True\<rparr>], input := js ''Q2'', loadings := True\<rparr>))) = 4 \<and>
   requests (fst (handleSend FetchStalls
      (fresh_session\<lparr>chatHistory := [\<lparr>type = User, text = js ''Q1'', loading = None\<rparr>,
        \<lparr>type = Bot, text = [], loading = Some True\<rparr>], input := js ''Q2'', loadings := True\<rparr>))) =
     [\<lparr>question = js ''Q2'', provider = js ''openai'', model = js ''gpt-4o-mini''\<rparr>]"
  by (simp add: after_handleSend_def handleSend_def fresh_session_def js_def
      run_effects_Cons run_effects_Nil appendTurnPair_def)

section \<open>A failed request\<close>

text \<open>
  C2 at the question \<open>Ping\<close> answered with a status that is not 2xx: in both
  handlers the updater of the \<open>catch\<close> block throws instead of writing the error
  message, so the bot turn keeps its empty text and its loader, and the error message,
  which is not the empty text, is not shown in the history. \<open>previousPrompt\<close> is
  unchanged, and \<open>setLoadings(false)\<close> is still called by the \<open>finally\<close> block.
\<close>

theorem C2_error_message_not_shown:
  "chatHistory (after_handleSend (Response False None) (fresh_session\<lparr>input := js ''Ping''\<rparr>)) =
     [\<lparr>type = User, text = js ''Ping'', loading = None\<rparr>,
      \<lparr>type = Bot, text = [], loading = Some True\<rparr>] \<and>
   uncaught (after_handleSend (Response False None) (fresh_session\<lparr>input := js ''Ping''\<rparr>)) =
     Some (ReferenceError ''loaderIndex is not defined'') \<and>
   chatHistory (after_handleQueryClick (js ''Ping'') (Response False None) fresh_session) =
     [\<lparr>type = User, text = js ''Ping'', loading = None\<rparr>,
      \<lparr>type = Bot, text = [], loading = Some True\<rparr>] \<and>
   uncaught (after_handleQueryClick (js ''Ping'') (Response False None) fresh_session) =
     Some (ReferenceError ''loaderIndex is not defined'') \<and>
   previousPrompt (after_handleSend (Response False None)
     (fresh_session\<lparr>input := js ''Ping''\<rparr>)) = [] \<and>
   loadings_writes (fst (handleSend (Response False None)
     (fresh_session\<lparr>input := js ''Ping''\<rparr>))) = [True, False] \<and>
   errorMessage \<noteq> []"
  by code_simp

section \<open>A stream that ends\<close>

text \<open>
  C4. When the stream delivers \<open>chunks\<close> and ends, the bot turn appended for the
  question holds the concatenation of the decoded chunks in arrival order, which is
  the text decoded from the concatenated bytes, and \<open>previousPrompt\<close> gains the
  question at its end and nothing else. This holds for \<open>handleSend\<close> with a
  non-empty \<open>input\<close> and for \<open>handleQueryClick\<close> with any query.
\<close>

theorem C4_successful_stream:
  "(input s \<noteq> [] \<longrightarrow>
      chatHistory (after_handleSend (Response True (Some (chunks, EndOfStream))) s) =
        chatHistory s @
          [\<lparr>type = User, text = input s, loading = None\<rparr>,
           \<lparr>type = Bot, text = concat (decoded_chunks new_TextDecoder chunks),
            loading = Some (chunks = [])\<rparr>] \<and>
      previousPrompt (after_handleSend (Response True (Some (chunks, EndOfStream))) s) =
        previousPrompt s @ [input s]) \<and>
   chatHistory (after_handleQueryClick query (Response True (Some (chunks, EndOfStream))) s) =
     chatHistory s @
       [\<lparr>type = User, text = query, loading = None\<rparr>,
        \<lparr>type = Bot, text = concat (decoded_chunks new_TextDecoder chunks),
         loading = Some (chunks = [])\<rparr>] \<and>
   previousPrompt (after_handleQueryClick query (Response True (Some (chunks, EndOfStream))) s) =
     previousPrompt s @ [query] \<and>
   concat (decoded_chunks new_TextDecoder chunks) =
     snd (decode new_TextDecoder (concat chunks))"
  by (simp add: after_handleSend_eq after_handleQueryClick_eq final_bot_def
      concat_decoded_chunks)

theorem C4_successful_stream_witness:
  "input (fresh_session\<lparr>input := js ''What is the deadline?''\<rparr>) \<noteq> [] \<and>
   chatHistory (after_handleSend
      (Response True (Some ([bytes ''The dead'', bytes ''line is Fri'', bytes ''day.''],
         EndOfStream)))
      (fresh_session\<lparr>input := js ''What is the deadline?''\<rparr>)) =
     [\<lparr>type = User, text = js ''What is the deadline?'', loading = None\<rparr>,
      \<lparr>type = Bot, text = js ''The deadline is Friday.'', loading = Some False\<rparr>] \<and>
   previousPrompt (after_handleSend
      (Response True (Some ([bytes ''The dead'', bytes ''line is Fri'', bytes ''day.''],
         EndOfStream)))
      (fresh_session\<lparr>input := js ''What is the deadline?''\<rparr>)) =
     [js ''What is the deadline?'']"
proof -
  have q: "input (fresh_session\<lparr>input := js ''What is the deadline?''\<rparr>) \<noteq> []"
    by (simp add: js_def)
  have d: "concat (decoded_chunks new_TextDecoder
          [bytes ''The dead'', bytes ''line is Fri'', bytes ''day.'']) =
        js ''The deadline is Friday.''"
    by code_simp
  show ?thesis
    using q d C4_successful_stream
      [of "fresh_session\<lparr>input := js ''What is the deadline?''\<rparr>"
          "[bytes ''The dead'', bytes ''line is Fri'', bytes ''day.'']"]
    by (simp add: fresh_session_def)
qed

section \<open>Empty and blank questions\<close>

text \<open>
  C7, as the code has it. \<open>handleSend\<close> with the empty \<open>input\<close> does nothing
  but \<open>preventDefault\<close>: it returns at once, no request is sent and the state is
  unchanged.
\<close>

theorem C7_empty_question_rejected:
  "input s = [] \<Longrightarrow>
   handleSend net s = ([PreventDefault], Returned) \<and> after_handleSend net s = s"
  by (simp add: handleSend_def after_handleSend_def run_effects_Cons run_effects_Nil)

theorem C7_empty_question_rejected_witness:
  "input fresh_session = [] \<and>
   handleSend FetchRejects fresh_session = ([PreventDefault], Returned) \<and>
   after_handleSend FetchRejects fresh_session = fresh_session"
  using C7_empty_question_rejected [of fresh_session FetchRejects]
  by (simp add: fresh_session_def)

text \<open>
  The claim C7 fails for a blank question: an \<open>input\<close> of one space is not
  falsy, so \<open>handleSend\<close> appends the two turns, sends the request and sets
  \<open>loadings\<close>.
\<close>

theorem C7_blank_question_accepted:
  "input (fresh_session\<lparr>input := js '' ''\<rparr>) = [0x20] \<and>
   chatHistory (after_handleSend FetchStalls (fresh_session\<lparr>input := js '' ''\<rparr>)) =
     [\<lparr>type = User, text = [0x20], loading = None\<rparr>,
      \<lparr>type = Bot, text = [], loading = Some True\<rparr>] \<and>
   requests (fst (handleSend FetchStalls (fresh_session\<lparr>input := js '' ''\<rparr>))) =
     [\<lparr>question = [0x20], provider = js ''openai'', model = js ''gpt-4o-mini''\<rparr>] \<and>
   loadings (after_handleSend FetchStalls (fresh_session\<lparr>input := js '' ''\<rparr>))"
  by (simp add: after_handleSend_def handleSend_def fresh_session_def js_def
      run_effects_Cons run_effects_Nil appendTurnPair_def)

section \<open>Characters split across chunks\<close>

text \<open>
  C3, as the code has it. Decoding \<open>a\<close> and then \<open>b\<close> with one decoder gives
  the text of decoding \<open>a @ b\<close> at once, wherever the boundary falls: the bytes of
  a character cut by the boundary wait in the decoder and are completed by the next
  chunk. So the text both read loops accumulate is the text of the whole byte stream.
  At the end of the stream the handlers make no flushing call: an unfinished tail adds
  nothing to the text, although \<open>decoder.decode()\<close> would turn it into U+FFFD.
\<close>

theorem C3_split_character_reassembled:
  "decode d (a @ b) =
     (fst (decode (fst (decode d a)) b),
      snd (decode d a) @ snd (decode (fst (decode d a)) b)) \<and>
   snd (handleSend_loop l new_TextDecoder [] chunks) =
     snd (decode new_TextDecoder (concat chunks)) \<and>
   snd (handleQueryClick_loop l new_TextDecoder [] chunks) =
     snd (decode new_TextDecoder (concat chunks)) \<and>
   (unfinished (utf8 (fst (decode new_TextDecoder (concat chunks)))) tail \<longrightarrow>
      snd (handleSend_loop l new_TextDecoder [] (chunks @ [tail])) =
        snd (handleSend_loop l new_TextDecoder [] chunks) \<and>
      snd (handleQueryClick_loop l new_TextDecoder [] (chunks @ [tail])) =
        snd (handleQueryClick_loop l new_TextDecoder [] chunks) \<and>
      decode_flush (fst (decode new_TextDecoder (concat (chunks @ [tail])))) = [0xFFFD])"
proof -
  let ?d = "fst (decode new_TextDecoder (concat chunks))"
  have tail: "snd (decode new_TextDecoder (concat (chunks @ [tail]))) =
                snd (decode new_TextDecoder (concat chunks))"
    and flush: "decode_flush (fst (decode new_TextDecoder (concat (chunks @ [tail])))) = [0xFFFD]"
    if u: "unfinished (utf8 ?d) tail"
  proof -
    show "snd (decode new_TextDecoder (concat (chunks @ [tail]))) =
                snd (decode new_TextDecoder (concat chunks))"
      using decode_unfinished(1) [OF u] by (simp add: decode_append)
    have "bytes_needed (utf8 (fst (decode new_TextDecoder (concat (chunks @ [tail]))))) \<noteq> 0"
      using decode_unfinished(2) [OF u] by (simp add: decode_append)
    then show "decode_flush (fst (decode new_TextDecoder (concat (chunks @ [tail])))) = [0xFFFD]"
      by (rule decode_flush_pending)
  qed
  show ?thesis
    using tail flush
    by (simp only: loop_text_handleSend loop_text_handleQueryClick decode_append) simp
qed

theorem C3_split_character_reassembled_witness:
  "unfinished (utf8 (fst (decode new_TextDecoder (concat [[0x41, 0xE2], [0x82, 0xAC]])))) [0xE2, 0x82] \<and>
   snd (handleSend_loop 0 new_TextDecoder [] [[0x41, 0xE2], [0x82, 0xAC]]) = [0x41, 0x20AC] \<and>
   snd (handleSend_loop 0 new_TextDecoder [] ([[0x41, 0xE2], [0x82, 0xAC]] @ [[0xE2, 0x82]])) =
     [0x41, 0x20AC] \<and>
   decode_flush (fst (decode new_TextDecoder
       (concat ([[0x41, 0xE2], [0x82, 0xAC]] @ [[0xE2, 0x82]])))) = [0xFFFD]"
proof -
  have u: "unfinished (utf8 (fst (decode new_TextDecoder (concat [[0x41, 0xE2], [0x82, 0xAC]]))))
             [0xE2, 0x82]"
    by code_simp
  have t: "snd (decode new_TextDecoder (concat [[0x41, 0xE2], [0x82, 0xAC]])) = [0x41, 0x20AC]"
    by code_simp
  show ?thesis
    using u t C3_split_character_reassembled
      [of new_TextDecoder "[]" "[]" 0 "[[0x41, 0xE2], [0x82, 0xAC]]" "[0xE2, 0x82]"]
    by simp
qed

text \<open>
  The claim C3 fails at the end of a stream: when the only chunk is \<open>A\<close> followed by
  the first two bytes of the euro sign, the bot turn of either handler ends as \<open>A\<close>,
  with no replacement character for the residual that a flush would have produced.
\<close>

theorem C3_residual_dropped:
  "text (last (chatHistory (after_handleSend
      (Response True (Some ([[0x41, 0xE2, 0x82]], EndOfStream)))
      (fresh_session\<lparr>input := js ''Q''\<rparr>)))) = [0x41] \<and>
   text (last (chatHistory (after_handleQueryClick (js ''Q'')
      (Response True (Some ([[0x41, 0xE2, 0x82]], EndOfStream))) fresh_session))) = [0x41] \<and>
   decode_flush (fst (decode new_TextDecoder [0x41, 0xE2, 0x82])) = [0xFFFD]"
  by code_simp

section \<open>The turn pair\<close>

text \<open>
  C5. An accepted submission with question \<open>q\<close> grows the history by exactly two
  turns in one step. Along the states an observer can see, the history is the old one
  up to the single \<open>setChatHistory\<close> call that appends the pair; right after that
  call it is the old history followed by the user turn with text \<open>q\<close> and a bot turn
  with empty text and \<open>loading = true\<close>; and in every later state it is still the old
  history followed by that user turn and one bot turn. No state holds one turn of the
  pair without the other.
\<close>

theorem C5_turn_pair_appended_at_once:
  "(input s \<noteq> [] \<longrightarrow>
      map chatHistory (take 4 (states (fst (handleSend net s)) s)) =
        replicate 4 (chatHistory s) \<and>
      chatHistory (states (fst (handleSend net s)) s ! 4) =
        chatHistory s @ [\<lparr>type = User, text = input s, loading = None\<rparr>,
                         \<lparr>type = Bot, text = [], loading = Some True\<rparr>] \<and>
      (\<forall>s' \<in> set (drop 4 (states (fst (handleSend net s)) s)).
         \<exists>b. chatHistory s' =
                chatHistory s @ [\<lparr>type = User, text = input s, loading = None\<rparr>, b] \<and>
              type b = Bot)) \<and>
   map chatHistory (take 3 (states (fst (handleQueryClick query net s)) s)) =
     replicate 3 (chatHistory s) \<and>
   chatHistory (states (fst (handleQueryClick query net s)) s ! 3) =
     chatHistory s @ [\<lparr>type = User, text = query, loading = None\<rparr>,
                      \<lparr>type = Bot, text = [], loading = Some True\<rparr>] \<and>
   (\<forall>s' \<in> set (drop 3 (states (fst (handleQueryClick query net s)) s)).
      \<exists>b. chatHistory s' =
             chatHistory s @ [\<lparr>type = User, text = query, loading = None\<rparr>, b] \<and>
           type b = Bot)"
proof -
  let ?pre = "[PreventDefault, SetShowResult True, SetLoadings True, SetRecentPrompt (input s)]"
  let ?pre' = "[SetShowResult True, SetLoadings True, SetRecentPrompt query]"
  have a: "map chatHistory (take (length ?pre) (states (fst (handleSend net s)) s)) =
           replicate (length ?pre) (chatHistory s) \<and>
         chatHistory (states (fst (handleSend net s)) s ! length ?pre) =
           chatHistory s @ [\<lparr>type = User, text = input s, loading = None\<rparr>,
                            \<lparr>type = Bot, text = [], loading = Some True\<rparr>] \<and>
         (\<forall>s' \<in> set (drop (length ?pre) (states (fst (handleSend net s)) s)).
           \<exists>b. chatHistory s' =
                  chatHistory s @ [\<lparr>type = User, text = input s, loading = None\<rparr>, b] \<and>
                type b = Bot)"
    if q: "input s \<noteq> []"
  proof (rule pair_trace)
    show "fst (handleSend net s) =
            ?pre @ SetChatHistory (appendTurnPair (input s)) # drop 5 (fst (handleSend net s))"
      using handleSend_later [OF q] by blast
    show "\<forall>e \<in> set (drop 5 (fst (handleSend net s))). later_effect (length (chatHistory s)) e"
      using handleSend_later [OF q] by blast
  qed (simp_all add: run_effects_Cons run_effects_Nil)
  have b: "map chatHistory (take (length ?pre') (states (fst (handleQueryClick query net s)) s)) =
           replicate (length ?pre') (chatHistory s) \<and>
         chatHistory (states (fst (handleQueryClick query net s)) s ! length ?pre') =
           chatHistory s @ [\<lparr>type = User, text = query, loading = None\<rparr>,
                            \<lparr>type = Bot, text = [], loading = Some True\<rparr>] \<and>
         (\<forall>s' \<in> set (drop (length ?pre') (states (fst (handleQueryClick query net s)) s)).
           \<exists>b. chatHistory s' =
                  chatHistory s @ [\<lparr>type = User, text = query, loading = None\<rparr>, b] \<and>
                type b = Bot)"
  proof (rule pair_trace)
    show "fst (handleQueryClick query net s) =
            ?pre' @ SetChatHistory (appendTurnPair query) #
              drop 4 (fst (handleQueryClick query net s))"
      using handleQueryClick_later by blast
    show "\<forall>e \<in> set (drop 4 (fst (handleQueryClick query net s))).
            later_effect (length (chatHistory s)) e"
      using handleQueryClick_later by blast
  qed (simp_all add: run_effects_Cons run_effects_Nil)
  have four: "length ?pre = 4" and three: "length ?pre' = 3" by simp_all
  show ?thesis using a b unfolding four three by blast
qed

theorem C5_turn_pair_appended_at_once_witness:
  "input (fresh_session\<lparr>input := js ''Ping''\<rparr>) \<noteq> [] \<and>
   map chatHistory (take 4 (states
       (fst (handleSend (Response True (Some ([bytes ''Pong''], EndOfStream)))
          (fresh_session\<lparr>input := js ''Ping''\<rparr>)))
       (fresh_session\<lparr>input := js ''Ping''\<rparr>))) = [[], [], [], []] \<and>
   chatHistory (states
       (fst (handleSend (Response True (Some ([bytes ''Pong''], EndOfStream)))
          (fresh_session\<lparr>input := js ''Ping''\<rparr>)))
       (fresh_session\<lparr>input := js ''Ping''\<rparr>) ! 4) =
     [\<lparr>type = User, text = js ''Ping'', loading = None\<rparr>,
      \<lparr>type = Bot, text = [], loading = Some True\<rparr>]"
proof -
  have q: "input (fresh_session\<lparr>input := js ''Ping''\<rparr>) \<noteq> []"
    by (simp add: js_def)
  have i: "input (fresh_session\<lparr>input := js ''Ping''\<rparr>) = js ''Ping''"
    and h: "chatHistory (fresh_session\<lparr>input := js ''Ping''\<rparr>) = []"
    and r: "replicate 4 ([] :: chat list) = [[], [], [], []]"
    by (simp_all add: fresh_session_def numeral_Bit0)
  show ?thesis
    using q C5_turn_pair_appended_at_once
      [of "fresh_session\<lparr>input := js ''Ping''\<rparr>"
          "Response True (Some ([bytes ''Pong''], EndOfStream))"]
    unfolding i h r by simp
qed

section \<open>The pending flag\<close>

text \<open>
  C6, as the code has it. For an accepted submission during which no other submission
  is handled, \<open>setLoadings(true)\<close> is called once, before the request, and, when
  every \<open>await\<close> settles, \<open>setLoadings(false)\<close> is called once, by the
  \<open>finally\<close> block as the last effect, on every path: success, a failed request, a
  failed read. When the request does not fail, \<open>loadings\<close> has the value it had
  before the first call, is true in every state from that call on, and is false after
  the last effect. A handler whose \<open>await\<close> never settles does not return and leaves
  \<open>loadings\<close> true.
\<close>

theorem C6_loadings_released:
  "(input s \<noteq> [] \<longrightarrow>
      snd (handleSend net s) = (if settles net then Returned else Suspended) \<and>
      loadings_writes (fst (handleSend net s)) = (if settles net then [True, False] else [True]) \<and>
      (settles net \<longrightarrow> last (fst (handleSend net s)) = SetLoadings False) \<and>
      (\<not> fails net \<longrightarrow>
         map loadings (states (fst (handleSend net s)) s) =
           (if settles net
            then replicate 2 (loadings s) @
                 replicate (length (fst (handleSend net s)) - 3) True @ [False]
            else replicate 2 (loadings s) @
                 replicate (length (fst (handleSend net s)) - 2) True))) \<and>
   snd (handleQueryClick query net s) = (if settles net then Returned else Suspended) \<and>
   loadings_writes (fst (handleQueryClick query net s)) =
     (if settles net then [True, False] else [True]) \<and>
   (settles net \<longrightarrow> last (fst (handleQueryClick query net s)) = SetLoadings False) \<and>
   (\<not> fails net \<longrightarrow>
      map loadings (states (fst (handleQueryClick query net s)) s) =
        (if settles net
         then replicate 1 (loadings s) @
              replicate (length (fst (handleQueryClick query net s)) - 2) True @ [False]
         else replicate 1 (loadings s) @
              replicate (length (fst (handleQueryClick query net s)) - 1) True))"
proof -
  let ?es = "fst (handleSend net s)"
  let ?qs = "fst (handleQueryClick query net s)"
  let ?pre = "[PreventDefault, SetShowResult True]"
  let ?pre' = "[SetShowResult True]"
  have send: "snd (handleSend net s) = (if settles net then Returned else Suspended) \<and>
      loadings_writes ?es = (if settles net then [True, False] else [True]) \<and>
      (settles net \<longrightarrow> last ?es = SetLoadings False) \<and>
      (\<not> fails net \<longrightarrow>
         map loadings (states ?es s) =
           (if settles net
            then replicate 2 (loadings s) @ replicate (length ?es - 3) True @ [False]
            else replicate 2 (loadings s) @ replicate (length ?es - 2) True))"
    if q: "input s \<noteq> []"
  proof -
    note sh = handleSend_shape [OF q, of net]
    from sh have es: "?es = ?pre @ SetLoadings True # drop 3 ?es" by blast
    from sh have w: "loadings_writes (drop 3 ?es) = (if settles net then [False] else [])"
      by blast
    have ws: "loadings_writes ?es = True # loadings_writes (drop 3 ?es)"
      by (subst es) (simp add: loadings_writes_append)
    have fin: "last ?es = SetLoadings False" if "settles net"
    proof -
      from sh that have l: "drop 3 ?es \<noteq> []" "last (drop 3 ?es) = SetLoadings False" by blast+
      have "last ?es = last (drop 3 ?es)" using l(1) by (subst es) simp
      with l(2) show ?thesis by simp
    qed
    have trace: "map loadings (states ?es s) =
           (if settles net
            then replicate 2 (loadings s) @ replicate (length ?es - 3) True @ [False]
            else replicate 2 (loadings s) @ replicate (length ?es - 2) True)"
      if nf: "\<not> fails net"
    proof (cases "settles net")
      case True
      note safe = handleSend_safe [OF q nf]
      from sh True have l: "drop 3 ?es \<noteq> []" "last (drop 3 ?es) = SetLoadings False" by blast+
      from w True have w': "loadings_writes (drop 3 ?es) = [False]" by simp
      have "map loadings (states ?es s) =
              replicate (length ?pre) (loadings s) @
                replicate (length ?es - length ?pre - 1) True @ [False]"
        by (rule loadings_trace_settled [OF es safe _ w' l]) simp
      moreover have "length ?es - length ?pre - 1 = length ?es - 3" by simp
      moreover have "length ?pre = 2" by simp
      ultimately have "map loadings (states ?es s) =
              replicate 2 (loadings s) @ replicate (length ?es - 3) True @ [False]"
        by (simp only:)
      with True show ?thesis by simp
    next
      case False
      note safe = handleSend_safe [OF q nf]
      from w False have w': "loadings_writes (drop 3 ?es) = []" by simp
      have "map loadings (states ?es s) =
              replicate (length ?pre) (loadings s) @ replicate (length ?es - length ?pre) True"
        by (rule loadings_trace_suspended [OF es safe _ w']) simp
      moreover have "length ?pre = 2" by simp
      ultimately have "map loadings (states ?es s) =
              replicate 2 (loadings s) @ replicate (length ?es - 2) True"
        by (simp only:)
      with False show ?thesis by simp
    qed
    from sh ws w fin trace show ?thesis by simp
  qed
  have click: "snd (handleQueryClick query net s) = (if settles net then Returned else Suspended) \<and>
      loadings_writes ?qs = (if settles net then [True, False] else [True]) \<and>
      (settles net \<longrightarrow> last ?qs = SetLoadings False) \<and>
      (\<not> fails net \<longrightarrow>
         map loadings (states ?qs s) =
           (if settles net
            then replicate 1 (loadings s) @ replicate (length ?qs - 2) True @ [False]
            else replicate 1 (loadings s) @ replicate (length ?qs - 1) True))"
  proof -
    note sh = handleQueryClick_shape [of query net s]
    from sh have es: "?qs = ?pre' @ SetLoadings True # drop 2 ?qs" by blast
    from sh have w: "loadings_writes (drop 2 ?qs) = (if settles net then [False] else [])"
      by blast
    have ws: "loadings_writes ?qs = True # loadings_writes (drop 2 ?qs)"
      by (subst es) (simp add: loadings_writes_append)
    have fin: "last ?qs = SetLoadings False" if "settles net"
    proof -
      from sh that have l: "drop 2 ?qs \<noteq> []" "last (drop 2 ?qs) = SetLoadings False" by blast+
      have "last ?qs = last (drop 2 ?qs)" using l(1) by (subst es) simp
      with l(2) show ?thesis by simp
    qed
    have trace: "map loadings (states ?qs s) =
           (if settles net
            then replicate 1 (loadings s) @ replicate (length ?qs - 2) True @ [False]
            else replicate 1 (loadings s) @ replicate (length ?qs - 1) True)"
      if nf: "\<not> fails net"
    proof (cases "settles net")
      case True
      note safe = handleQueryClick_safe [OF nf, of query s]
      from sh True have l: "drop 2 ?qs \<noteq> []" "last (drop 2 ?qs) = SetLoadings False" by blast+
      from w True have w': "loadings_writes (drop 2 ?qs) = [False]" by simp
      have "map loadings (states ?qs s) =
              replicate (length ?pre') (loadings s) @
                replicate (length ?qs - length ?pre' - 1) True @ [False]"
        by (rule loadings_trace_settled [OF es safe _ w' l]) simp
      moreover have "length ?qs - length ?pre' - 1 = length ?qs - 2" by simp
      moreover have "length ?pre' = 1" by simp
      ultimately have "map loadings (states ?qs s) =
              replicate 1 (loadings s) @ replicate (length ?qs - 2) True @ [False]"
        by (simp only:)
      with True show ?thesis by simp
    next
      case False
      note safe = handleQueryClick_safe [OF nf, of query s]
      from w False have w': "loadings_writes (drop 2 ?qs) = []" by simp
      have "map loadings (states ?qs s) =
              replicate (length ?pre') (loadings s) @ replicate (length ?qs - length ?pre') True"
        by (rule loadings_trace_suspended [OF es safe _ w']) simp
      moreover have "length ?pre' = 1" by simp
      ultimately have "map loadings (states ?qs s) =
              replicate 1 (loadings s) @ replicate (length ?qs - 1) True"
        by (simp only:)
      with False show ?thesis by simp
    qed
    from sh ws w fin trace show ?thesis by simp
  qed
  from send click show ?thesis by blast
qed

theorem C6_loadings_released_witness:
  "input (fresh_session\<lparr>input := js ''Ping''\<rparr>) \<noteq> [] \<and>
   settles (Response True (Some ([bytes ''Pong''], EndOfStream))) \<and>
   \<not> fails (Response True (Some ([bytes ''Pong''], EndOfStream))) \<and>
   snd (handleSend (Response True (Some ([bytes ''Pong''], EndOfStream)))
      (fresh_session\<lparr>input := js ''Ping''\<rparr>)) = Returned \<and>
   loadings_writes (fst (handleSend (Response True (Some ([bytes ''Pong''], EndOfStream)))
      (fresh_session\<lparr>input := js ''Ping''\<rparr>))) = [True, False] \<and>
   map loadings (states
      (fst (handleSend (Response True (Some ([bytes ''Pong''], EndOfStream)))
         (fresh_session\<lparr>input := js ''Ping''\<rparr>)))
      (fresh_session\<lparr>input := js ''Ping''\<rparr>)) =
     [False, False, True, True, True, True, True, True, True, True, False]"
proof -
  have q: "input (fresh_session\<lparr>input := js ''Ping''\<rparr>) \<noteq> []"
    by (simp add: js_def)
  have n: "length (fst (handleSend (Response True (Some ([bytes ''Pong''], EndOfStream)))
      (fresh_session\<lparr>input := js ''Ping''\<rparr>))) - 3 = 8"
    by code_simp
  have f: "loadings (fresh_session\<lparr>input := js ''Ping''\<rparr>) = False"
    by (simp add: fresh_session_def)
  have r: "replicate 2 False @ replicate 8 True @ [False] =
      [False, False, True, True, True, True, True, True, True, True, False]"
    by code_simp
  show ?thesis
    using q C6_loadings_released
      [of "fresh_session\<lparr>input := js ''Ping''\<rparr>"
          "Response True (Some ([bytes ''Pong''], EndOfStream))"]
    unfolding n f by (simp add: r)
qed

text \<open>
  The claim C6 fails when submissions overlap, which nothing prevents: \<open>Q1\<close> is
  clicked and is answered in two chunks; after the first chunk \<open>Q2\<close> is sent and is
  answered in full. No updater throws. The \<open>finally\<close> block of \<open>Q2\<close> sets
  \<open>loadings\<close> to false while \<open>Q1\<close> is still being read: \<open>loadings\<close> is
  false when the second chunk of \<open>Q1\<close> arrives and until \<open>Q1\<close> ends, and it is
  written false twice.
\<close>

theorem C6_overlapping_submissions:
  "map loadings (states
      (overlapping (js ''Q1'') (Response True (Some ([bytes ''a'', bytes ''b''], EndOfStream))) 6
         (js ''Q2'') (Response True (Some ([bytes ''c''], EndOfStream))) fresh_session)
      fresh_session) =
     [False, True, True, True, True, True, True,
      True, True, True, True, True, True, True, True, True, True, False,
      False, False, False] \<and>
   map uncaught (states
      (overlapping (js ''Q1'') (Response True (Some ([bytes ''a'', bytes ''b''], EndOfStream))) 6
         (js ''Q2'') (Response True (Some ([bytes ''c''], EndOfStream))) fresh_session)
      fresh_session) = replicate 21 None \<and>
   map (\<lambda>s. map text (chatHistory s)) (drop 17 (states
      (overlapping (js ''Q1'') (Response True (Some ([bytes ''a'', bytes ''b''], EndOfStream))) 6
         (js ''Q2'') (Response True (Some ([bytes ''c''], EndOfStream))) fresh_session)
      fresh_session)) =
     [[js ''Q1'', js ''a'', js ''Q2'', js ''c''],
      [js ''Q1'', js ''ab'', js ''Q2'', js ''c''],
      [js ''Q1'', js ''ab'', js ''Q2'', js ''c''],
      [js ''Q1'', js ''ab'', js ''Q2'', js ''c'']] \<and>
   loadings_writes
      (overlapping (js ''Q1'') (Response True (Some ([bytes ''a'', bytes ''b''], EndOfStream))) 6
         (js ''Q2'') (Response True (Some ([bytes ''c''], EndOfStream))) fresh_session) =
     [True, True, False, False]"
  by code_simp

section \<open>The two entry points\<close>

text \<open>
  C8, as the code has it. For every non-empty question the two handlers leave the same
  history, the same \<open>previousPrompt\<close> and the same error state behind, under every
  behaviour of the network; \<open>handleQueryClick\<close> performs the effects of
  \<open>handleSend\<close> without \<open>preventDefault\<close>, \<open>setInput\<close> and
  \<open>setResponse\<close>.
\<close>

theorem C8_entry_points_agree:
  "input s \<noteq> [] \<longrightarrow>
     chatHistory (after_handleQueryClick (input s) net s) = chatHistory (after_handleSend net s) \<and>
     previousPrompt (after_handleQueryClick (input s) net s) =
       previousPrompt (after_handleSend net s) \<and>
     uncaught (after_handleQueryClick (input s) net s) = uncaught (after_handleSend net s) \<and>
     snd (handleQueryClick (input s) net s) = snd (handleSend net s) \<and>
     fst (handleQueryClick (input s) net s) = filter shared_effect (fst (handleSend net s))"
proof
  assume q: "input s \<noteq> []"
  have "snd (handleQueryClick (input s) net s) = snd (handleSend net s)"
    using handleSend_shape [OF q, of net] handleQueryClick_shape [of "input s" net s] by simp
  then show "chatHistory (after_handleQueryClick (input s) net s) =
       chatHistory (after_handleSend net s) \<and>
     previousPrompt (after_handleQueryClick (input s) net s) =
       previousPrompt (after_handleSend net s) \<and>
     uncaught (after_handleQueryClick (input s) net s) = uncaught (after_handleSend net s) \<and>
     snd (handleQueryClick (input s) net s) = snd (handleSend net s) \<and>
     fst (handleQueryClick (input s) net s) = filter shared_effect (fst (handleSend net s))"
    by (simp add: after_handleSend_eq [OF q] after_handleQueryClick_eq
        handleQueryClick_filter [OF q])
qed

theorem C8_entry_points_agree_witness:
  "input (fresh_session\<lparr>input := js ''Ping''\<rparr>) \<noteq> [] \<and>
   chatHistory (after_handleQueryClick (js ''Ping'')
       (Response True (Some ([bytes ''Po'', bytes ''ng''], EndOfStream)))
       (fresh_session\<lparr>input := js ''Ping''\<rparr>)) =
     [\<lparr>type = User, text = js ''Ping'', loading = None\<rparr>,
      \<lparr>type = Bot, text = js ''Pong'', loading = Some False\<rparr>] \<and>
   chatHistory (after_handleSend
       (Response True (Some ([bytes ''Po'', bytes ''ng''], EndOfStream)))
       (fresh_session\<lparr>input := js ''Ping''\<rparr>)) =
     [\<lparr>type = User, text = js ''Ping'', loading = None\<rparr>,
      \<lparr>type = Bot, text = js ''Pong'', loading = Some False\<rparr>]"
proof -
  have q: "input (fresh_session\<lparr>input := js ''Ping''\<rparr>) \<noteq> []"
    by (simp add: js_def)
  have i: "input (fresh_session\<lparr>input := js ''Ping''\<rparr>) = js ''Ping''"
    by simp
  have h: "chatHistory (after_handleSend
       (Response True (Some ([bytes ''Po'', bytes ''ng''], EndOfStream)))
       (fresh_session\<lparr>input := js ''Ping''\<rparr>)) =
     [\<lparr>type = User, text = js ''Ping'', loading = None\<rparr>,
      \<lparr>type = Bot, text = js ''Pong'', loading = Some False\<rparr>]"
    by code_simp
  show ?thesis
    using q h C8_entry_points_agree
      [of "fresh_session\<lparr>input := js ''Ping''\<rparr>"
          "Response True (Some ([bytes ''Po'', bytes ''ng''], EndOfStream))"]
    unfolding i by simp
qed

text \<open>
  The claim C8 fails for the empty question: \<open>handleSend\<close> returns at once and
  leaves the history empty, \<open>handleQueryClick\<close> has no such check and appends the
  two turns and the answer.
\<close>

theorem C8_empty_query_differs:
  "input fresh_session = [] \<and>
   chatHistory (after_handleSend
      (Response True (Some ([bytes ''Pong''], EndOfStream))) fresh_session) = [] \<and>
   chatHistory (after_handleQueryClick []
      (Response True (Some ([bytes ''Pong''], EndOfStream))) fresh_session) =
     [\<lparr>type = User, text = [], loading = None\<rparr>,
      \<lparr>type = Bot, text = js ''Pong'', loading = Some False\<rparr>] \<and>
   previousPrompt (after_handleSend
      (Response True (Some ([bytes ''Pong''], EndOfStream))) fresh_session) = [] \<and>
   previousPrompt (after_handleQueryClick []
      (Response True (Some ([bytes ''Pong''], EndOfStream))) fresh_session) = [[]]"
  by code_simp

section \<open>Updating the text of a turn\<close>

text \<open>
  C9. For a turn index \<open>l + 1\<close> inside the history and any sequence of texts passed
  to the updater one after the other, the text shown at that index after each call is
  the text passed by that call, so a sequence of texts that never gets shorter is shown
  as one; the texts the read loops pass are such a sequence, each a prefix of the next.
  Calling the updater twice with one text gives the state of calling it once.
\<close>

theorem C9_update_shows_last_text:
  "(l + 1 < length (chatHistory s) \<longrightarrow>
      map (\<lambda>s'. text (chatHistory s' ! (l + 1)))
        (states (map (\<lambda>t. SetChatHistory (updateTurnText (Some l) t)) ts) s) = ts \<and>
      (sorted_wrt (\<lambda>a b. length a \<le> length b) ts \<longrightarrow>
         sorted_wrt (\<lambda>a b. length a \<le> length b)
           (map (\<lambda>s'. text (chatHistory s' ! (l + 1)))
              (states (map (\<lambda>t. SetChatHistory (updateTurnText (Some l) t)) ts) s))) \<and>
      sorted_wrt prefix
        (map (\<lambda>s'. text (chatHistory s' ! (l + 1)))
           (states (fst (handleSend_loop l d acc chunks)) s)) \<and>
      sorted_wrt prefix
        (map (\<lambda>s'. text (chatHistory s' ! (l + 1)))
           (states (fst (handleQueryClick_loop l d acc chunks)) s))) \<and>
   run_effects [SetChatHistory (updateTurnText (Some l) t),
                SetChatHistory (updateTurnText (Some l) t)] s =
     run_effects [SetChatHistory (updateTurnText (Some l) t)] s"
proof (intro conjI impI)
  assume len: "l + 1 < length (chatHistory s)"
  note disp = displayed_texts [OF len]
  show "map (\<lambda>s'. text (chatHistory s' ! (l + 1)))
        (states (map (\<lambda>t. SetChatHistory (updateTurnText (Some l) t)) ts) s) = ts"
    by (rule disp)
  show "sorted_wrt (\<lambda>a b. length a \<le> length b)
           (map (\<lambda>s'. text (chatHistory s' ! (l + 1)))
              (states (map (\<lambda>t. SetChatHistory (updateTurnText (Some l) t)) ts) s))"
    if "sorted_wrt (\<lambda>a b. length a \<le> length b) ts"
    using that by (simp only: disp)
  show "sorted_wrt prefix
        (map (\<lambda>s'. text (chatHistory s' ! (l + 1)))
           (states (fst (handleSend_loop l d acc chunks)) s))"
    by (simp only: handleSend_loop_eq fst_conv disp accumulated_sorted)
  show "sorted_wrt prefix
        (map (\<lambda>s'. text (chatHistory s' ! (l + 1)))
           (states (fst (handleQueryClick_loop l d acc chunks)) s))"
    by (simp only: handleQueryClick_loop_eq fst_conv disp accumulated_sorted)
next
  have "run_effects (map (\<lambda>t. SetChatHistory (updateTurnText (Some l) t)) [t, t]) s =
        run_effects (map (\<lambda>t. SetChatHistory (updateTurnText (Some l) t)) [t]) s"
    by (simp only: run_partials) simp
  then show "run_effects [SetChatHistory (updateTurnText (Some l) t),
                SetChatHistory (updateTurnText (Some l) t)] s =
     run_effects [SetChatHistory (updateTurnText (Some l) t)] s"
    by (simp only: list.map)
qed

theorem C9_update_shows_last_text_witness:
  "0 + 1 < length (chatHistory (fresh_session\<lparr>chatHistory :=
       [\<lparr>type = User, text = js ''Q'', loading = None\<rparr>,
        \<lparr>type = Bot, text = [], loading = Some True\<rparr>]\<rparr>)) \<and>
   map (\<lambda>s'. text (chatHistory s' ! (0 + 1)))
     (states (map (\<lambda>t. SetChatHistory (updateTurnText (Some 0) t))
                [js ''The'', js ''The dead'', js ''The dead''])
        (fresh_session\<lparr>chatHistory :=
           [\<lparr>type = User, text = js ''Q'', loading = None\<rparr>,
            \<lparr>type = Bot, text = [], loading = Some True\<rparr>]\<rparr>)) =
     [js ''The'', js ''The dead'', js ''The dead'']"
  using C9_update_shows_last_text
    [of 0 "fresh_session\<lparr>chatHistory :=
       [\<lparr>type = User, text = js ''Q'', loading = None\<rparr>,
        \<lparr>type = Bot, text = [], loading = Some True\<rparr>]\<rparr>"
       "[js ''The'', js ''The dead'', js ''The dead'']"]
  by (simp del: apply_effect.simps)

section \<open>The frame of an update\<close>

text \<open>
  C10. Every effect a handler performs after appending the turn pair, the partial
  updates of the read loop and the update of the \<open>catch\<close> block among them, leaves
  the length of any history and the roles of its turns as they are, and leaves every
  turn unchanged but the one at index \<open>chatHistory.length + 1\<close>, counted when the
  handler was called.
\<close>

theorem C10_only_target_turn_rewritten:
  "(input s \<noteq> [] \<longrightarrow>
      (\<forall>e \<in> set (drop 5 (fst (handleSend net s))). \<forall>s'.
          length (chatHistory (apply_effect e s')) = length (chatHistory s') \<and>
          map type (chatHistory (apply_effect e s')) = map type (chatHistory s') \<and>
          (\<forall>i. i \<noteq> length (chatHistory s) + 1 \<longrightarrow>
                chatHistory (apply_effect e s') ! i = chatHistory s' ! i))) \<and>
   (\<forall>e \<in> set (drop 4 (fst (handleQueryClick query net s))). \<forall>s'.
       length (chatHistory (apply_effect e s')) = length (chatHistory s') \<and>
       map type (chatHistory (apply_effect e s')) = map type (chatHistory s') \<and>
       (\<forall>i. i \<noteq> length (chatHistory s) + 1 \<longrightarrow>
             chatHistory (apply_effect e s') ! i = chatHistory s' ! i))"
  using handleSend_later [of s net] handleQueryClick_later [of query net s]
    later_effect_frame [of "length (chatHistory s)"]
  by blast

theorem C10_only_target_turn_rewritten_witness:
  "input (fresh_session\<lparr>input := js ''Ping''\<rparr>) \<noteq> [] \<and>
   length (chatHistory (apply_effect
      (drop 5 (fst (handleSend (Response True (Some ([bytes ''Po''], ReadRejects)))
         (fresh_session\<lparr>input := js ''Ping''\<rparr>))) ! 2)
      (fresh_session\<lparr>chatHistory :=
         [\<lparr>type = User, text = js ''Ping'', loading = None\<rparr>,
          \<lparr>type = Bot, text = [], loading = Some True\<rparr>]\<rparr>))) = 2 \<and>
   chatHistory (apply_effect
      (drop 5 (fst (handleSend (Response True (Some ([bytes ''Po''], ReadRejects)))
         (fresh_session\<lparr>input := js ''Ping''\<rparr>))) ! 2)
      (fresh_session\<lparr>chatHistory :=
         [\<lparr>type = User, text = js ''Ping'', loading = None\<rparr>,
          \<lparr>type = Bot, text = [], loading = Some True\<rparr>]\<rparr>)) ! 0 =
     \<lparr>type = User, text = js ''Ping'', loading = None\<rparr>"
proof -
  let ?S = "fresh_session\<lparr>input := js ''Ping''\<rparr>"
  let ?E = "drop 5 (fst (handleSend (Response True (Some ([bytes ''Po''], ReadRejects))) ?S))"
  let ?S' = "fresh_session\<lparr>chatHistory :=
         [\<lparr>type = User, text = js ''Ping'', loading = None\<rparr>,
          \<lparr>type = Bot, text = [], loading = Some True\<rparr>]\<rparr>"
  have q: "input ?S \<noteq> []"
    by (simp add: js_def)
  have "2 < length ?E" by code_simp
  then have mem: "?E ! 2 \<in> set ?E" by (rule nth_mem)
  have h: "chatHistory ?S = []" by (simp add: fresh_session_def)
  have "\<forall>e \<in> set ?E. \<forall>s'.
          length (chatHistory (apply_effect e s')) = length (chatHistory s') \<and>
          map type (chatHistory (apply_effect e s')) = map type (chatHistory s') \<and>
          (\<forall>i. i \<noteq> length (chatHistory ?S) + 1 \<longrightarrow>
                chatHistory (apply_effect e s') ! i = chatHistory s' ! i)"
    using q C10_only_target_turn_rewritten
      [of ?S "Response True (Some ([bytes ''Po''], ReadRejects))"]
    by blast
  with mem have "length (chatHistory (apply_effect (?E ! 2) ?S')) = length (chatHistory ?S') \<and>
      chatHistory (apply_effect (?E ! 2) ?S') ! 0 = chatHistory ?S' ! 0"
    unfolding h by simp
  with q show ?thesis by simp
qed

end
